theory Spec2Isabelle
  imports Main "HOL-Library.Word"
begin

section \<open>The in-memory entry table of Enixnel (include/fs.h)\<close>

text \<open>
  A C string pointer is modelled as \<open>string option\<close>: \<open>None\<close> is the NULL pointer and
  \<open>Some s\<close> points to the characters \<open>s\<close> that precede the terminating NUL.  A byte buffer
  with an explicit length (file data) is a plain \<open>char list\<close>.
\<close>

type_synonym cstr = "string option"

abbreviation ENIXNEL_MAX_FS_ENTRIES :: nat where "ENIXNEL_MAX_FS_ENTRIES \<equiv> 128"
abbreviation ENIXNEL_MAX_NAME_LEN :: nat where "ENIXNEL_MAX_NAME_LEN \<equiv> 31"
abbreviation ENIXNEL_MAX_FILE_SIZE :: nat where "ENIXNEL_MAX_FILE_SIZE \<equiv> 512"

abbreviation NUL :: char where "NUL \<equiv> CHR 0x00"

text \<open>
  \<open>struct fs_entry\<close>.  \<open>name\<close> holds the C string stored in the 32-byte name array,
  \<open>data\<close> the 512 bytes of the data array, \<open>size_e\<close> the field \<open>size\<close>.
\<close>

record fs_entry =
  used :: "8 word"
  is_dir :: "8 word"
  name :: string
  size_e :: "32 word"
  data :: "char list"

text \<open>The global table \<open>fs_entries\<close> is a list of 128 entries; as a C global it starts zeroed.\<close>

type_synonym fs_table = "fs_entry list"

definition zero_entry :: fs_entry where
  "zero_entry = \<lparr>used = 0, is_dir = 0, name = [], size_e = 0,
                 data = replicate ENIXNEL_MAX_FILE_SIZE NUL\<rparr>"

definition fs_zero :: fs_table where
  "fs_zero = replicate ENIXNEL_MAX_FS_ENTRIES zero_entry"

section \<open>kernel/crtfiles.c\<close>

text \<open>\<open>fs_strlen\<close>: the loop \<open>while ( *s++) ++n\<close>, with the counter as accumulator.\<close>

fun strlen_loop :: "string \<Rightarrow> nat \<Rightarrow> nat" where
  "strlen_loop [] n = n"
| "strlen_loop (c # cs) n = strlen_loop cs (n + 1)"

definition fs_strlen :: "cstr \<Rightarrow> nat" where
  "fs_strlen s = (case s of None \<Rightarrow> 0 | Some cs \<Rightarrow> strlen_loop cs 0)"

text \<open>
  The comparison loop of \<open>fs_find_index\<close> (and of \<open>k_streq\<close>):
  \<open>while ( *a || *b) { if ( *a != *b) return 0; ++a; ++b; } return 1\<close>.
  An exhausted list is a pointer at the terminating NUL.
\<close>

fun str_equal :: "string \<Rightarrow> string \<Rightarrow> bool" where
  "str_equal [] [] = True"
| "str_equal (a # as) [] = False"
| "str_equal [] (b # bs) = False"
| "str_equal (a # as) (b # bs) = (if a \<noteq> b then False else str_equal as bs)"

text \<open>The slot loop of \<open>fs_find_index\<close>, from slot \<open>i\<close> on.\<close>

function fs_find_from :: "fs_table \<Rightarrow> string \<Rightarrow> nat \<Rightarrow> nat option" where
  "fs_find_from tbl nm i =
     (if i < ENIXNEL_MAX_FS_ENTRIES then
        (if used (tbl ! i) \<noteq> 0 \<and> str_equal (name (tbl ! i)) nm then Some i
         else fs_find_from tbl nm (i + 1))
      else None)"
  by pat_completeness auto
termination
  by (relation "measure (\<lambda>(tbl, nm, i). ENIXNEL_MAX_FS_ENTRIES - i)") auto

declare fs_find_from.simps [simp del]

text \<open>\<open>fs_find_index\<close>: \<open>None\<close> is the return value -1.\<close>

definition fs_find_index :: "fs_table \<Rightarrow> cstr \<Rightarrow> nat option" where
  "fs_find_index tbl nm = (case nm of None \<Rightarrow> None | Some s \<Rightarrow> fs_find_from tbl s 0)"

text \<open>
  The slot loop of \<open>fs_alloc_entry\<close>: the first free slot is taken.  \<open>alloc_fill\<close> is the
  body of its \<open>if\<close>: the flags, the name and the size are set, and \<open>data[0]\<close> is cleared
  for a file.
\<close>

definition alloc_fill :: "fs_entry \<Rightarrow> string \<Rightarrow> 8 word \<Rightarrow> fs_entry" where
  "alloc_fill e nm isd =
     (let e1 = e\<lparr>used := 1, is_dir := isd, name := nm, size_e := 0\<rparr>
      in if isd = 0 then e1\<lparr>data := (data e1)[0 := NUL]\<rparr> else e1)"

function fs_alloc_from :: "fs_table \<Rightarrow> string \<Rightarrow> 8 word \<Rightarrow> nat \<Rightarrow> fs_table \<times> nat option" where
  "fs_alloc_from tbl nm isd i =
     (if i < ENIXNEL_MAX_FS_ENTRIES then
        (if used (tbl ! i) = 0 then (tbl[i := alloc_fill (tbl ! i) nm isd], Some i)
         else fs_alloc_from tbl nm isd (i + 1))
      else (tbl, None))"
  by pat_completeness auto
termination
  by (relation "measure (\<lambda>(tbl, nm, isd, i). ENIXNEL_MAX_FS_ENTRIES - i)") auto

declare fs_alloc_from.simps [simp del]

definition fs_alloc_entry :: "fs_table \<Rightarrow> cstr \<Rightarrow> 8 word \<Rightarrow> fs_table \<times> nat option" where
  "fs_alloc_entry tbl nm isd =
     (case nm of
        None \<Rightarrow> (tbl, None)
      | Some s \<Rightarrow>
          (let len = fs_strlen nm in
           if len = 0 \<or> len > ENIXNEL_MAX_NAME_LEN then (tbl, None)
           else if fs_find_index tbl nm \<noteq> None then (tbl, None)
           else fs_alloc_from tbl s isd 0))"

text \<open>\<open>fs_create_dir\<close>, \<open>fs_create_file\<close>: the new table and the \<open>int\<close> result.\<close>

definition fs_create_dir :: "fs_table \<Rightarrow> cstr \<Rightarrow> fs_table \<times> int" where
  "fs_create_dir tbl nm =
     (case fs_alloc_entry tbl nm 1 of (tbl', idx) \<Rightarrow> (tbl', if idx \<noteq> None then 0 else -1))"

definition fs_create_file :: "fs_table \<Rightarrow> cstr \<Rightarrow> fs_table \<times> int" where
  "fs_create_file tbl nm =
     (case fs_alloc_entry tbl nm 0 of (tbl', idx) \<Rightarrow> (tbl', if idx \<noteq> None then 0 else -1))"

text \<open>The copy loop of \<open>fs_write_file\<close>: \<open>for (i = 0; i < len; ++i) e->data[offset + i] = data[i]\<close>.\<close>

fun copy_data :: "char list \<Rightarrow> nat \<Rightarrow> char list \<Rightarrow> nat \<Rightarrow> char list" where
  "copy_data dst offset src 0 = dst"
| "copy_data dst offset src (Suc n) = (copy_data dst offset src n)[offset + n := src ! n]"

text \<open>
  The part of \<open>fs_write_file\<close> after the slot \<open>idx\<close> is known.  \<open>len\<close> is the \<open>size_t\<close>
  argument; the caller passes at least \<open>len\<close> readable bytes in \<open>src\<close>.
\<close>

definition fs_write_at :: "fs_table \<Rightarrow> nat \<Rightarrow> char list \<Rightarrow> nat \<Rightarrow> int \<Rightarrow> fs_table \<times> int" where
  "fs_write_at tbl idx src len append_f =
     (let e = tbl ! idx;
          offset = (if append_f \<noteq> 0 then unat (size_e e) else 0)
      in if offset \<ge> ENIXNEL_MAX_FILE_SIZE then (tbl, -1)
         else
           (let space = ENIXNEL_MAX_FILE_SIZE - offset;
                len' = (if len > space then space else len);
                d1 = copy_data (data e) offset src len';
                offset' = offset + len';
                d2 = (if offset' < ENIXNEL_MAX_FILE_SIZE then d1[offset' := NUL]
                      else d1[ENIXNEL_MAX_FILE_SIZE - 1 := NUL])
            in (tbl[idx := e\<lparr>size_e := of_nat offset', data := d2\<rparr>], 0)))"

definition fs_write_file :: "fs_table \<Rightarrow> cstr \<Rightarrow> char list option \<Rightarrow> nat \<Rightarrow> int \<Rightarrow> fs_table \<times> int" where
  "fs_write_file tbl nm dat len append_f =
     (if nm = None \<or> (dat = None \<and> len > 0) then (tbl, -1)
      else
        (let src = (case dat of None \<Rightarrow> [] | Some d \<Rightarrow> d) in
         case fs_find_index tbl nm of
           Some idx \<Rightarrow>
             if is_dir (tbl ! idx) \<noteq> 0 then (tbl, -1)
             else fs_write_at tbl idx src len append_f
         | None \<Rightarrow>
             (case fs_alloc_entry tbl nm 0 of
                (tbl1, None) \<Rightarrow> (tbl1, -1)
              | (tbl1, Some idx) \<Rightarrow>
                  (let e = tbl1 ! idx;
                       tbl2 = tbl1[idx := e\<lparr>size_e := 0, data := (data e)[0 := NUL]\<rparr>]
                   in fs_write_at tbl2 idx src len append_f))))"

text \<open>\<open>fs_read_file\<close>: on success the view \<open>( *out_data, *out_len)\<close> of the entry's storage.\<close>

definition fs_read_file :: "fs_table \<Rightarrow> cstr \<Rightarrow> (char list \<times> nat) option" where
  "fs_read_file tbl nm =
     (case fs_find_index tbl nm of
        None \<Rightarrow> None
      | Some idx \<Rightarrow>
          if is_dir (tbl ! idx) \<noteq> 0 then None
          else Some (data (tbl ! idx), unat (size_e (tbl ! idx))))"

section \<open>kernel/delfiles.c\<close>

definition fs_delete_dir :: "fs_table \<Rightarrow> cstr \<Rightarrow> fs_table \<times> int" where
  "fs_delete_dir tbl nm =
     (case fs_find_index tbl nm of
        None \<Rightarrow> (tbl, -1)
      | Some idx \<Rightarrow>
          if is_dir (tbl ! idx) = 0 then (tbl, -1)
          else (tbl[idx := (tbl ! idx)\<lparr>used := 0, is_dir := 0, name := []\<rparr>], 0))"

definition fs_delete_file :: "fs_table \<Rightarrow> cstr \<Rightarrow> fs_table \<times> int" where
  "fs_delete_file tbl nm =
     (case fs_find_index tbl nm of
        None \<Rightarrow> (tbl, -1)
      | Some idx \<Rightarrow>
          if is_dir (tbl ! idx) \<noteq> 0 then (tbl, -1)
          else (tbl[idx := (tbl ! idx)\<lparr>used := 0, is_dir := 0, name := []\<rparr>], 0))"

section \<open>kernel/main.c: string and path helpers\<close>

definition k_strlen :: "cstr \<Rightarrow> nat" where
  "k_strlen s = (case s of None \<Rightarrow> 0 | Some cs \<Rightarrow> strlen_loop cs 0)"

definition k_streq :: "cstr \<Rightarrow> cstr \<Rightarrow> bool" where
  "k_streq a b =
     (case a of None \<Rightarrow> False
      | Some as \<Rightarrow> (case b of None \<Rightarrow> False | Some bs \<Rightarrow> str_equal as bs))"

text \<open>The characters a pointer gives access to; a NULL pointer is never read.\<close>

definition chars :: "cstr \<Rightarrow> string" where
  "chars s = (case s of None \<Rightarrow> [] | Some cs \<Rightarrow> cs)"

text \<open>
  \<open>for (i = 0; i < n; ++i) out[i] = src[start + i]\<close>, followed by the terminator at
  \<open>out[n]\<close>: the string left in \<open>out\<close>.
\<close>

fun copy_from :: "string \<Rightarrow> nat \<Rightarrow> nat \<Rightarrow> string" where
  "copy_from src start 0 = []"
| "copy_from src start (Suc n) = copy_from src start n @ [src ! (start + n)]"

text \<open>
  \<open>for (i = 0; i < len && pos < limit; ++i) out[pos++] = src[i]\<close>: \<open>out\<close> is what has
  been written so far, so \<open>pos\<close> is its length.
\<close>

fun copy_bounded :: "string \<Rightarrow> string \<Rightarrow> nat \<Rightarrow> string" where
  "copy_bounded [] out limit = out"
| "copy_bounded (c # cs) out limit =
     (if length out < limit then copy_bounded cs (out @ [c]) limit else out)"

text \<open>
  \<open>path_join\<close>.  The argument \<open>out\<close> is the caller's buffer before the call and the
  result is the buffer after it; with a NULL buffer or size 0 nothing is written.
  (The variable \<open>total\<close> of the source is computed and never read.)
\<close>

definition path_join :: "cstr \<Rightarrow> cstr \<Rightarrow> cstr \<Rightarrow> nat \<Rightarrow> cstr" where
  "path_join dir nm out out_size =
     (if out = None \<or> out_size = 0 then out
      else
        (let dlen = k_strlen dir; nlen = k_strlen nm in
         if dlen = 0 then
           (let nlen' = (if nlen \<ge> out_size then out_size - 1 else nlen)
            in Some (copy_from (chars nm) 0 nlen'))
         else
           (let o1 = copy_bounded (chars dir) [] (out_size - 1);
                o2 = (if length o1 < out_size - 1 then o1 @ [CHR ''/''] else o1);
                o3 = copy_bounded (chars nm) o2 (out_size - 1)
            in Some o3)))"

text \<open>\<open>while (last_slash > 0 && path[last_slash - 1] != '/') --last_slash\<close>.\<close>

fun last_slash_loop :: "string \<Rightarrow> nat \<Rightarrow> nat" where
  "last_slash_loop p 0 = 0"
| "last_slash_loop p (Suc n) = (if p ! n \<noteq> CHR ''/'' then last_slash_loop p n else Suc n)"

definition path_parent :: "cstr \<Rightarrow> cstr \<Rightarrow> nat \<Rightarrow> cstr" where
  "path_parent path out out_size =
     (if out = None \<or> out_size = 0 then out
      else
        (case path of
           None \<Rightarrow> Some []
         | Some p \<Rightarrow>
             (let len = k_strlen path in
              if len = 0 then Some []
              else
                (let last_slash = last_slash_loop p len in
                 if last_slash = 0 then Some []
                 else
                   (let plen = last_slash - 1;
                        plen' = (if plen \<ge> out_size then out_size - 1 else plen)
                    in Some (copy_from p 0 plen'))))))"

definition path_basename :: "cstr \<Rightarrow> cstr \<Rightarrow> nat \<Rightarrow> cstr" where
  "path_basename path out out_size =
     (if out = None \<or> out_size = 0 then out
      else
        (case path of
           None \<Rightarrow> Some []
         | Some p \<Rightarrow>
             (let len = k_strlen path in
              if len = 0 then Some []
              else
                (let start = last_slash_loop p len;
                     blen = len - start;
                     blen' = (if blen \<ge> out_size then out_size - 1 else blen)
                 in Some (copy_from p start blen')))))"

text \<open>\<open>cli_first_arg\<close>: skip leading spaces, then copy the token while it fits.\<close>

fun skip_spaces :: "string \<Rightarrow> string" where
  "skip_spaces [] = []"
| "skip_spaces (c # cs) = (if c = CHR '' '' then skip_spaces cs else c # cs)"

fun copy_token :: "string \<Rightarrow> string \<Rightarrow> nat \<Rightarrow> string" where
  "copy_token [] out out_size = out"
| "copy_token (c # cs) out out_size =
     (if c \<noteq> CHR '' '' \<and> length out + 1 < out_size then copy_token cs (out @ [c]) out_size
      else out)"

definition cli_first_arg :: "string \<Rightarrow> nat \<Rightarrow> string" where
  "cli_first_arg args arg_out_size = copy_token (skip_spaces args) [] arg_out_size"

section \<open>kernel/main.c: console and commands\<close>

text \<open>
  The display driver is outside the model: the console is the sequence of characters
  handed to \<open>console_putc\<close>.
\<close>

type_synonym console = string

definition console_putc :: "char \<Rightarrow> console \<Rightarrow> console" where
  "console_putc c con = con @ [c]"

fun console_write :: "string \<Rightarrow> console \<Rightarrow> console" where
  "console_write [] con = con"
| "console_write (c # cs) con = console_write cs (console_putc c con)"

definition console_write_line :: "string \<Rightarrow> console \<Rightarrow> console" where
  "console_write_line s con = console_putc (CHR 0x0A) (console_write s con)"

definition fs_init_layout :: "fs_table \<Rightarrow> fs_table" where
  "fs_init_layout t0 =
     (let t1 = fst (fs_create_dir t0 (Some ''bin''));
          t2 = fst (fs_create_dir t1 (Some ''user''))
      in foldl (\<lambda>t nm. fst (fs_create_file t (Some nm))) t2
           [''bin/echo'', ''bin/crtdir'', ''bin/cfile'', ''bin/deldir'', ''bin/dfile'',
            ''bin/sdir'', ''bin/sfile'', ''bin/efile'', ''bin/clr'', ''bin/cd''])"

text \<open>
  \<open>cli_cmd_sdir\<close>.  The loop state is the flag \<open>any\<close> and the console.  The local arrays
  \<open>parent\<close> and \<open>base\<close> are written whole by the path helpers before they are read.
\<close>

function sdir_loop :: "fs_table \<Rightarrow> string \<Rightarrow> nat \<Rightarrow> bool \<times> console \<Rightarrow> bool \<times> console" where
  "sdir_loop tbl current_dir i st =
     (if i < ENIXNEL_MAX_FS_ENTRIES then
        (if used (tbl ! i) = 0 then sdir_loop tbl current_dir (i + 1) st
         else
           (let parent = path_parent (Some (name (tbl ! i))) (Some []) (ENIXNEL_MAX_NAME_LEN + 1);
                base = path_basename (Some (name (tbl ! i))) (Some []) (ENIXNEL_MAX_NAME_LEN + 1)
            in if \<not> k_streq parent (Some current_dir) then sdir_loop tbl current_dir (i + 1) st
               else
                 (let con1 = (if is_dir (tbl ! i) \<noteq> 0 then console_write ''[DIR]  '' (snd st)
                              else console_write ''[FILE] '' (snd st));
                      con2 = console_write_line (chars base) con1
                  in sdir_loop tbl current_dir (i + 1) (True, con2))))
      else st)"
  by pat_completeness auto
termination
  by (relation "measure (\<lambda>(tbl, cur, i, st). ENIXNEL_MAX_FS_ENTRIES - i)") auto

declare sdir_loop.simps [simp del]

definition cli_cmd_sdir :: "fs_table \<Rightarrow> string \<Rightarrow> console \<Rightarrow> console" where
  "cli_cmd_sdir tbl current_dir con =
     (case sdir_loop tbl current_dir 0 (False, con) of
        (any, con') \<Rightarrow> if \<not> any then console_write_line ''sdir: no entries'' con' else con')"

text \<open>
  \<open>cli_cmd_cd\<close>: the new \<open>current_dir\<close> and the console.  Copying back into
  \<open>current_dir\<close> is the loop \<open>while (src[i] && i < sizeof(current_dir) - 1)\<close>.
\<close>

definition cli_cmd_cd :: "fs_table \<Rightarrow> string \<Rightarrow> console \<Rightarrow> string \<Rightarrow> string \<times> console" where
  "cli_cmd_cd tbl current_dir con args =
     (let nm = cli_first_arg args (ENIXNEL_MAX_NAME_LEN + 1) in
      if nm = [] then (current_dir, console_write_line ''cd: missing name'' con)
      else if k_streq (Some nm) (Some ''.'') then (current_dir, con)
      else if k_streq (Some nm) (Some ''..'') then
        (let parent = path_parent (Some current_dir) (Some []) (ENIXNEL_MAX_NAME_LEN + 1)
         in (copy_bounded (chars parent) [] ENIXNEL_MAX_NAME_LEN, con))
      else
        (let target = path_join (Some current_dir) (Some nm) (Some []) (ENIXNEL_MAX_NAME_LEN + 1) in
         case fs_find_index tbl target of
           None \<Rightarrow>
             (current_dir, console_write_line nm (console_write ''cd: no such directory: '' con))
         | Some idx \<Rightarrow>
             if used (tbl ! idx) = 0 \<or> is_dir (tbl ! idx) = 0 then
               (current_dir, console_write_line nm (console_write ''cd: no such directory: '' con))
             else (copy_bounded (chars target) [] ENIXNEL_MAX_NAME_LEN, con)))"

section \<open>Table states\<close>

text \<open>The table states that the create, delete and write calls produce from the boot layout.\<close>

inductive_set reachable :: "fs_table set" where
  init: "fs_init_layout fs_zero \<in> reachable"
| create_dir: "t \<in> reachable \<Longrightarrow> fst (fs_create_dir t nm) \<in> reachable"
| create_file: "t \<in> reachable \<Longrightarrow> fst (fs_create_file t nm) \<in> reachable"
| delete_dir: "t \<in> reachable \<Longrightarrow> fst (fs_delete_dir t nm) \<in> reachable"
| delete_file: "t \<in> reachable \<Longrightarrow> fst (fs_delete_file t nm) \<in> reachable"
| write_file: "t \<in> reachable \<Longrightarrow> fst (fs_write_file t nm dat len append_f) \<in> reachable"

text \<open>No two used slots store the same name.\<close>

definition names_unique :: "fs_table \<Rightarrow> bool" where
  "names_unique t \<longleftrightarrow>
     (\<forall>i < ENIXNEL_MAX_FS_ENTRIES. \<forall>j < ENIXNEL_MAX_FS_ENTRIES.
        used (t ! i) \<noteq> 0 \<and> used (t ! j) \<noteq> 0 \<and> name (t ! i) = name (t ! j) \<longrightarrow> i = j)"

text \<open>A slot matches a name when it is in use and stores exactly that name.\<close>

definition holds_name :: "fs_table \<Rightarrow> string \<Rightarrow> nat \<Rightarrow> bool" where
  "holds_name tbl nm i \<longleftrightarrow> used (tbl ! i) \<noteq> 0 \<and> name (tbl ! i) = nm"

section \<open>Tables given by their leading slots\<close>

text \<open>A table whose leading slots are \<open>xs\<close> and whose other slots are still zeroed.\<close>

definition tbl_of :: "fs_entry list \<Rightarrow> fs_table" where
  "tbl_of xs = xs @ replicate (ENIXNEL_MAX_FS_ENTRIES - length xs) zero_entry"

definition dir_entry :: "string \<Rightarrow> fs_entry" where
  "dir_entry nm = zero_entry\<lparr>used := 1, is_dir := 1, name := nm\<rparr>"

definition file_entry :: "string \<Rightarrow> fs_entry" where
  "file_entry nm = zero_entry\<lparr>used := 1, name := nm\<rparr>"

text \<open>The leading slots of the table after \<open>fs_init_layout\<close> at boot.\<close>

definition boot_entries :: "fs_entry list" where
  "boot_entries =
     [dir_entry ''bin'', dir_entry ''user'',
      file_entry ''bin/echo'', file_entry ''bin/crtdir'', file_entry ''bin/cfile'',
      file_entry ''bin/deldir'', file_entry ''bin/dfile'', file_entry ''bin/sdir'',
      file_entry ''bin/sfile'', file_entry ''bin/efile'', file_entry ''bin/clr'',
      file_entry ''bin/cd'']"

text \<open>A table whose 128 slots are all in use: files named \<open>ab\<close>, \<open>aab\<close>, ...\<close>

definition full_table :: fs_table where
  "full_table =
     map (\<lambda>i. file_entry (replicate (i mod 16 + 1) (CHR ''a'') @ replicate (i div 16 + 1) (CHR ''b'')))
       [0 ..< ENIXNEL_MAX_FS_ENTRIES]"

text \<open>
  The line \<open>cli_cmd_sdir\<close> prints for an entry: its kind tag, its basename, a newline.
\<close>

definition sdir_line :: "fs_entry \<Rightarrow> string" where
  "sdir_line e =
     (if is_dir e \<noteq> 0 then ''[DIR]  '' else ''[FILE] '') @
     chars (path_basename (Some (name e)) (Some []) (ENIXNEL_MAX_NAME_LEN + 1)) @ [CHR 0x0A]"

text \<open>The boot layout after creating \<open>user/a\<close> (file), \<open>user/b\<close> (directory) and \<open>user/b/c\<close>.\<close>

definition listing_example :: fs_table where
  "listing_example =
     (let t1 = fst (fs_create_file (fs_init_layout fs_zero) (Some ''user/a''));
          t2 = fst (fs_create_dir t1 (Some ''user/b''))
      in fst (fs_create_file t2 (Some ''user/b/c'')))"

text \<open>The boot layout after \<open>crtdir user/\<close> was typed at the root.\<close>

definition trailing_slash_example :: fs_table where
  "trailing_slash_example = fst (fs_create_dir (fs_init_layout fs_zero) (Some ''user/''))"

text \<open>The content of a file as a reader sees it: the first \<open>size\<close> bytes of its data.\<close>

definition file_content :: "fs_table \<Rightarrow> string \<Rightarrow> char list option" where
  "file_content tbl nm =
     (case fs_read_file tbl (Some nm) of None \<Rightarrow> None | Some (d, n) \<Rightarrow> Some (take n d))"

section \<open>Lookup and allocation: basic facts\<close>

lemma strlen_loop_eq: "strlen_loop cs n = n + length cs"
  by (induction cs arbitrary: n) auto

lemma fs_strlen_Some [simp]: "fs_strlen (Some cs) = length cs"
  by (simp add: fs_strlen_def strlen_loop_eq)

lemma str_equal_iff [simp]: "str_equal a b \<longleftrightarrow> a = b"
  by (induction a b rule: str_equal.induct) auto

lemma fs_find_from_stop: "\<not> i < ENIXNEL_MAX_FS_ENTRIES \<Longrightarrow> fs_find_from tbl nm i = None"
  by (simp add: fs_find_from.simps [of tbl nm i])

lemma fs_find_from_hit:
  "i < ENIXNEL_MAX_FS_ENTRIES \<Longrightarrow> holds_name tbl nm i \<Longrightarrow> fs_find_from tbl nm i = Some i"
  by (simp add: fs_find_from.simps [of tbl nm i] holds_name_def)

lemma fs_find_from_miss:
  "i < ENIXNEL_MAX_FS_ENTRIES \<Longrightarrow> \<not> holds_name tbl nm i \<Longrightarrow>
     fs_find_from tbl nm i = fs_find_from tbl nm (i + 1)"
  by (subst fs_find_from.simps) (auto simp: holds_name_def)

lemma fs_find_from_Some:
  "fs_find_from tbl nm i = Some k \<Longrightarrow>
     i \<le> k \<and> k < ENIXNEL_MAX_FS_ENTRIES \<and> holds_name tbl nm k \<and>
     (\<forall>j. i \<le> j \<and> j < k \<longrightarrow> \<not> holds_name tbl nm j)"
proof (induction tbl nm i rule: fs_find_from.induct)
  case (1 tbl nm i)
  show ?case
  proof (cases "i < ENIXNEL_MAX_FS_ENTRIES")
    case False
    with "1.prems" show ?thesis by (simp add: fs_find_from_stop)
  next
    case inb: True
    show ?thesis
    proof (cases "holds_name tbl nm i")
      case True
      with inb "1.prems" show ?thesis by (auto simp: fs_find_from_hit)
    next
      case False
      with inb "1.prems" have "fs_find_from tbl nm (i + 1) = Some k"
        by (simp add: fs_find_from_miss)
      moreover from False have "\<not> (used (tbl ! i) \<noteq> 0 \<and> str_equal (name (tbl ! i)) nm)"
        by (simp add: holds_name_def)
      ultimately have
        IH: "i + 1 \<le> k \<and> k < ENIXNEL_MAX_FS_ENTRIES \<and> holds_name tbl nm k \<and>
             (\<forall>j. i + 1 \<le> j \<and> j < k \<longrightarrow> \<not> holds_name tbl nm j)"
        using "1.IH" inb by blast
      have "\<not> holds_name tbl nm j" if "i \<le> j \<and> j < k" for j
      proof (cases "j = i")
        case True
        with False show ?thesis by simp
      next
        case False
        with that have "i + 1 \<le> j \<and> j < k" by arith
        with IH show ?thesis by blast
      qed
      with IH show ?thesis by auto
    qed
  qed
qed

lemma fs_find_from_None:
  "fs_find_from tbl nm i = None \<Longrightarrow> i \<le> j \<Longrightarrow> j < ENIXNEL_MAX_FS_ENTRIES \<Longrightarrow>
     \<not> holds_name tbl nm j"
proof (induction tbl nm i rule: fs_find_from.induct)
  case (1 tbl nm i)
  from "1.prems" have inb: "i < ENIXNEL_MAX_FS_ENTRIES" by arith
  have miss: "\<not> holds_name tbl nm i"
    using "1.prems"(1) inb fs_find_from_hit [of i tbl nm] by auto
  show ?case
  proof (cases "j = i")
    case True
    with miss show ?thesis by simp
  next
    case False
    from miss inb "1.prems"(1) have "fs_find_from tbl nm (i + 1) = None"
      by (simp add: fs_find_from_miss)
    moreover from miss have "\<not> (used (tbl ! i) \<noteq> 0 \<and> str_equal (name (tbl ! i)) nm)"
      by (simp add: holds_name_def)
    moreover from False "1.prems" have "i + 1 \<le> j" by arith
    ultimately show ?thesis using "1.IH" inb "1.prems"(3) by blast
  qed
qed

lemma fs_find_from_exists:
  "i \<le> j \<Longrightarrow> j < ENIXNEL_MAX_FS_ENTRIES \<Longrightarrow> holds_name tbl nm j \<Longrightarrow>
     \<exists>k. fs_find_from tbl nm i = Some k"
  using fs_find_from_None [of tbl nm i j] by (cases "fs_find_from tbl nm i") auto

lemma fs_alloc_from_free:
  "i \<le> k \<Longrightarrow> k < ENIXNEL_MAX_FS_ENTRIES \<Longrightarrow> used (tbl ! k) = 0 \<Longrightarrow>
   (\<And>j. i \<le> j \<Longrightarrow> j < k \<Longrightarrow> used (tbl ! j) \<noteq> 0) \<Longrightarrow>
     fs_alloc_from tbl nm isd i = (tbl[k := alloc_fill (tbl ! k) nm isd], Some k)"
proof (induction tbl nm isd i rule: fs_alloc_from.induct)
  case (1 tbl nm isd i)
  from "1.prems" have inb: "i < ENIXNEL_MAX_FS_ENTRIES" by arith
  show ?case
  proof (cases "i = k")
    case True
    with "1.prems" show ?thesis by (subst fs_alloc_from.simps) simp
  next
    case False
    with "1.prems" have busy: "used (tbl ! i) \<noteq> 0" and lt: "i + 1 \<le> k" by auto
    from busy inb have "fs_alloc_from tbl nm isd i = fs_alloc_from tbl nm isd (i + 1)"
      by (subst fs_alloc_from.simps) simp
    also have "\<dots> = (tbl[k := alloc_fill (tbl ! k) nm isd], Some k)"
      using "1.IH" [OF inb busy lt] "1.prems" by simp
    finally show ?thesis .
  qed
qed

lemma fs_alloc_from_full:
  "(\<And>j. i \<le> j \<Longrightarrow> j < ENIXNEL_MAX_FS_ENTRIES \<Longrightarrow> used (tbl ! j) \<noteq> 0) \<Longrightarrow>
     fs_alloc_from tbl nm isd i = (tbl, None)"
proof (induction tbl nm isd i rule: fs_alloc_from.induct)
  case (1 tbl nm isd i)
  show ?case
  proof (cases "i < ENIXNEL_MAX_FS_ENTRIES")
    case False
    then show ?thesis by (subst fs_alloc_from.simps) simp
  next
    case True
    with "1.prems" have busy: "used (tbl ! i) \<noteq> 0" by simp
    with True have "fs_alloc_from tbl nm isd i = fs_alloc_from tbl nm isd (i + 1)"
      by (subst fs_alloc_from.simps) simp
    also have "\<dots> = (tbl, None)"
      using "1.IH" [OF True busy] "1.prems" by simp
    finally show ?thesis .
  qed
qed

text \<open>The first free slot at or after \<open>i\<close>, if there is one.\<close>

lemma first_free_slot:
  "i \<le> m \<Longrightarrow> m < ENIXNEL_MAX_FS_ENTRIES \<Longrightarrow> used (tbl ! m) = 0 \<Longrightarrow>
     \<exists>k. i \<le> k \<and> k \<le> m \<and> used (tbl ! k) = 0 \<and> (\<forall>j. i \<le> j \<and> j < k \<longrightarrow> used (tbl ! j) \<noteq> 0)"
proof -
  define k where "k = (LEAST k. i \<le> k \<and> used (tbl ! k) = 0)"
  assume a: "i \<le> m" "m < ENIXNEL_MAX_FS_ENTRIES" "used (tbl ! m) = 0"
  then have ex: "i \<le> m \<and> used (tbl ! m) = 0" by simp
  have k: "i \<le> k \<and> used (tbl ! k) = 0"
    unfolding k_def by (rule LeastI [of "\<lambda>k. i \<le> k \<and> used (tbl ! k) = 0", OF ex])
  have km: "k \<le> m" unfolding k_def by (rule Least_le) (rule ex)
  have "used (tbl ! j) \<noteq> 0" if "i \<le> j \<and> j < k" for j
    using that not_less_Least [of j "\<lambda>k. i \<le> k \<and> used (tbl ! k) = 0"] by (auto simp: k_def)
  with k km show ?thesis by blast
qed

lemma fs_alloc_from_cases:
  "(fs_alloc_from tbl nm isd i = (tbl, None) \<and>
      (\<forall>j. i \<le> j \<and> j < ENIXNEL_MAX_FS_ENTRIES \<longrightarrow> used (tbl ! j) \<noteq> 0)) \<or>
   (\<exists>k. i \<le> k \<and> k < ENIXNEL_MAX_FS_ENTRIES \<and> used (tbl ! k) = 0 \<and>
        (\<forall>j. i \<le> j \<and> j < k \<longrightarrow> used (tbl ! j) \<noteq> 0) \<and>
        fs_alloc_from tbl nm isd i = (tbl[k := alloc_fill (tbl ! k) nm isd], Some k))"
proof (cases "\<exists>m. i \<le> m \<and> m < ENIXNEL_MAX_FS_ENTRIES \<and> used (tbl ! m) = 0")
  case False
  then have "fs_alloc_from tbl nm isd i = (tbl, None)"
    by (intro fs_alloc_from_full) blast
  with False show ?thesis by blast
next
  case True
  then obtain m where m: "i \<le> m" "m < ENIXNEL_MAX_FS_ENTRIES" "used (tbl ! m) = 0" by blast
  from first_free_slot [OF m] obtain k where
    k: "i \<le> k" "k \<le> m" "used (tbl ! k) = 0" "\<forall>j. i \<le> j \<and> j < k \<longrightarrow> used (tbl ! j) \<noteq> 0"
    by blast
  with m have kb: "k < ENIXNEL_MAX_FS_ENTRIES" by arith
  have "fs_alloc_from tbl nm isd i = (tbl[k := alloc_fill (tbl ! k) nm isd], Some k)"
    using k kb by (intro fs_alloc_from_free) auto
  with k kb show ?thesis by blast
qed

text \<open>\<open>fs_find_index\<close> in terms of the slots.\<close>

lemma fs_find_index_None_iff:
  "fs_find_index tbl (Some nm) = None \<longleftrightarrow> (\<forall>j < ENIXNEL_MAX_FS_ENTRIES. \<not> holds_name tbl nm j)"
proof
  assume "fs_find_index tbl (Some nm) = None"
  then show "\<forall>j < ENIXNEL_MAX_FS_ENTRIES. \<not> holds_name tbl nm j"
    using fs_find_from_None [of tbl nm 0] by (simp add: fs_find_index_def)
next
  assume absent: "\<forall>j < ENIXNEL_MAX_FS_ENTRIES. \<not> holds_name tbl nm j"
  show "fs_find_index tbl (Some nm) = None"
  proof (cases "fs_find_from tbl nm 0")
    case None
    then show ?thesis by (simp add: fs_find_index_def)
  next
    case (Some k)
    from fs_find_from_Some [OF Some] absent show ?thesis by blast
  qed
qed

lemma fs_find_index_Some:
  "fs_find_index tbl nm = Some k \<Longrightarrow>
     \<exists>s. nm = Some s \<and> k < ENIXNEL_MAX_FS_ENTRIES \<and> holds_name tbl s k \<and>
         (\<forall>j < k. \<not> holds_name tbl s j)"
  unfolding fs_find_index_def
  using fs_find_from_Some [of tbl _ 0 k] by (cases nm) auto

lemma fs_find_index_first:
  "k < ENIXNEL_MAX_FS_ENTRIES \<Longrightarrow> holds_name tbl nm k \<Longrightarrow> (\<And>j. j < k \<Longrightarrow> \<not> holds_name tbl nm j) \<Longrightarrow>
     fs_find_index tbl (Some nm) = Some k"
proof -
  assume k: "k < ENIXNEL_MAX_FS_ENTRIES" "holds_name tbl nm k" and first: "\<And>j. j < k \<Longrightarrow> \<not> holds_name tbl nm j"
  from fs_find_from_exists [of 0 k tbl nm] k obtain k' where
    k': "fs_find_from tbl nm 0 = Some k'" by auto
  from fs_find_from_Some [OF k'] have
    "holds_name tbl nm k'" "\<forall>j. j < k' \<longrightarrow> \<not> holds_name tbl nm j" by auto
  with k first have "k' = k" by (metis linorder_neqE_nat)
  with k' show ?thesis by (simp add: fs_find_index_def)
qed

lemma fs_alloc_entry_fail:
  "fs_alloc_entry tbl nm isd = (tbl', None) \<Longrightarrow> tbl' = tbl"
proof (cases nm)
  case None
  then show "fs_alloc_entry tbl nm isd = (tbl', None) \<Longrightarrow> tbl' = tbl"
    by (simp add: fs_alloc_entry_def)
next
  case (Some s)
  assume a: "fs_alloc_entry tbl nm isd = (tbl', None)"
  show "tbl' = tbl"
  proof (cases "fs_alloc_entry tbl nm isd = fs_alloc_from tbl s isd 0")
    case True
    with a fs_alloc_from_cases [of tbl s isd 0] show ?thesis by auto
  next
    case False
    with Some have "fs_alloc_entry tbl nm isd = (tbl, None)"
      by (auto simp: fs_alloc_entry_def Let_def split: if_splits)
    with a show ?thesis by simp
  qed
qed

lemma fs_alloc_entry_Some:
  "fs_alloc_entry tbl nm isd = (tbl', Some k) \<Longrightarrow>
     \<exists>s. nm = Some s \<and> 0 < length s \<and> length s \<le> ENIXNEL_MAX_NAME_LEN \<and>
         (\<forall>j < ENIXNEL_MAX_FS_ENTRIES. \<not> holds_name tbl s j) \<and>
         k < ENIXNEL_MAX_FS_ENTRIES \<and> used (tbl ! k) = 0 \<and> (\<forall>j < k. used (tbl ! j) \<noteq> 0) \<and>
         tbl' = tbl[k := alloc_fill (tbl ! k) s isd]"
proof -
  assume a: "fs_alloc_entry tbl nm isd = (tbl', Some k)"
  then obtain s where s: "nm = Some s" by (cases nm) (auto simp: fs_alloc_entry_def)
  from a s have len: "0 < length s" "length s \<le> ENIXNEL_MAX_NAME_LEN"
    by (auto simp: fs_alloc_entry_def Let_def split: if_splits)
  from a s have absent: "fs_find_index tbl (Some s) = None"
    by (auto simp: fs_alloc_entry_def Let_def split: if_splits)
  from a s len absent have loop: "fs_alloc_from tbl s isd 0 = (tbl', Some k)"
    by (auto simp: fs_alloc_entry_def Let_def split: if_splits)
  from fs_alloc_from_cases [of tbl s isd 0] loop have
    "k < ENIXNEL_MAX_FS_ENTRIES \<and> used (tbl ! k) = 0 \<and> (\<forall>j < k. used (tbl ! j) \<noteq> 0) \<and>
     tbl' = tbl[k := alloc_fill (tbl ! k) s isd]"
    by auto
  with s len absent show ?thesis by (simp add: fs_find_index_None_iff)
qed

lemma fs_alloc_entry_ok:
  "0 < length s \<Longrightarrow> length s \<le> ENIXNEL_MAX_NAME_LEN \<Longrightarrow>
   (\<And>j. j < ENIXNEL_MAX_FS_ENTRIES \<Longrightarrow> \<not> holds_name tbl s j) \<Longrightarrow>
   k < ENIXNEL_MAX_FS_ENTRIES \<Longrightarrow> used (tbl ! k) = 0 \<Longrightarrow> (\<And>j. j < k \<Longrightarrow> used (tbl ! j) \<noteq> 0) \<Longrightarrow>
     fs_alloc_entry tbl (Some s) isd = (tbl[k := alloc_fill (tbl ! k) s isd], Some k)"
proof -
  assume len: "0 < length s" "length s \<le> ENIXNEL_MAX_NAME_LEN"
    and absent: "\<And>j. j < ENIXNEL_MAX_FS_ENTRIES \<Longrightarrow> \<not> holds_name tbl s j"
    and k: "k < ENIXNEL_MAX_FS_ENTRIES" "used (tbl ! k) = 0" "\<And>j. j < k \<Longrightarrow> used (tbl ! j) \<noteq> 0"
  from absent have "fs_find_index tbl (Some s) = None" by (simp add: fs_find_index_None_iff)
  moreover have "fs_alloc_from tbl s isd 0 = (tbl[k := alloc_fill (tbl ! k) s isd], Some k)"
    using k by (intro fs_alloc_from_free) auto
  ultimately show ?thesis using len by (simp add: fs_alloc_entry_def)
qed

lemma fs_alloc_entry_present:
  "i < ENIXNEL_MAX_FS_ENTRIES \<Longrightarrow> holds_name tbl s i \<Longrightarrow> fs_alloc_entry tbl (Some s) isd = (tbl, None)"
proof -
  assume "i < ENIXNEL_MAX_FS_ENTRIES" "holds_name tbl s i"
  then have "fs_find_index tbl (Some s) \<noteq> None" by (auto simp: fs_find_index_None_iff)
  then show ?thesis by (simp add: fs_alloc_entry_def Let_def)
qed

lemma fs_alloc_entry_full:
  "(\<And>j. j < ENIXNEL_MAX_FS_ENTRIES \<Longrightarrow> used (tbl ! j) \<noteq> 0) \<Longrightarrow> fs_alloc_entry tbl nm isd = (tbl, None)"
  using fs_alloc_from_full [of 0 tbl]
  by (auto simp: fs_alloc_entry_def Let_def split: option.splits)

section \<open>Tables given by their leading slots: facts\<close>

lemma zero_entry_sel [simp]:
  "used zero_entry = 0" "is_dir zero_entry = 0" "name zero_entry = []" "size_e zero_entry = 0"
  "data zero_entry = replicate ENIXNEL_MAX_FILE_SIZE NUL"
  by (simp_all add: zero_entry_def)

lemma alloc_fill_zero:
  "alloc_fill zero_entry nm 1 = dir_entry nm" "alloc_fill zero_entry nm 0 = file_entry nm"
  by (simp_all add: alloc_fill_def dir_entry_def file_entry_def zero_entry_def list_update_same_conv)

lemma entry_sel [simp]:
  "used (dir_entry nm) = 1" "is_dir (dir_entry nm) = 1" "name (dir_entry nm) = nm"
  "size_e (dir_entry nm) = 0" "data (dir_entry nm) = replicate ENIXNEL_MAX_FILE_SIZE NUL"
  "used (file_entry nm) = 1" "is_dir (file_entry nm) = 0" "name (file_entry nm) = nm"
  "size_e (file_entry nm) = 0" "data (file_entry nm) = replicate ENIXNEL_MAX_FILE_SIZE NUL"
  by (simp_all add: dir_entry_def file_entry_def)

lemma length_tbl_of [simp]:
  "length xs \<le> ENIXNEL_MAX_FS_ENTRIES \<Longrightarrow> length (tbl_of xs) = ENIXNEL_MAX_FS_ENTRIES"
  by (simp add: tbl_of_def)

lemma nth_tbl_of:
  "i < ENIXNEL_MAX_FS_ENTRIES \<Longrightarrow> tbl_of xs ! i = (if i < length xs then xs ! i else zero_entry)"
  by (auto simp: tbl_of_def nth_append)

lemma holds_name_tbl_of:
  "j < ENIXNEL_MAX_FS_ENTRIES \<Longrightarrow>
     holds_name (tbl_of xs) nm j \<longleftrightarrow> j < length xs \<and> used (xs ! j) \<noteq> 0 \<and> name (xs ! j) = nm"
  by (simp add: holds_name_def nth_tbl_of)

lemma tbl_of_update:
  "k < length xs \<Longrightarrow> (tbl_of xs)[k := e] = tbl_of (xs[k := e])"
  by (simp add: tbl_of_def list_update_append)

lemma tbl_of_extend:
  "length xs < ENIXNEL_MAX_FS_ENTRIES \<Longrightarrow> (tbl_of xs)[length xs := e] = tbl_of (xs @ [e])"
proof -
  assume lt: "length xs < ENIXNEL_MAX_FS_ENTRIES"
  then obtain m where m: "ENIXNEL_MAX_FS_ENTRIES - length xs = Suc m"
    by (cases "ENIXNEL_MAX_FS_ENTRIES - length xs") auto
  then have m': "ENIXNEL_MAX_FS_ENTRIES - length (xs @ [e]) = m" by simp
  have "(tbl_of xs)[length xs := e] = xs @ (replicate (Suc m) zero_entry)[0 := e]"
    unfolding tbl_of_def m by (simp add: list_update_append del: replicate_Suc)
  also have "\<dots> = (xs @ [e]) @ replicate m zero_entry" by simp
  also have "\<dots> = tbl_of (xs @ [e])" unfolding tbl_of_def m' ..
  finally show ?thesis .
qed

text \<open>Creating a fresh name in such a table fills the next slot.\<close>

lemma fs_alloc_entry_tbl_of:
  assumes "length xs < ENIXNEL_MAX_FS_ENTRIES"
    and "\<forall>e \<in> set xs. used e \<noteq> 0 \<and> name e \<noteq> nm"
    and "0 < length nm" "length nm \<le> ENIXNEL_MAX_NAME_LEN"
  shows "fs_alloc_entry (tbl_of xs) (Some nm) isd =
           (tbl_of (xs @ [alloc_fill zero_entry nm isd]), Some (length xs))"
proof -
  have "fs_alloc_entry (tbl_of xs) (Some nm) isd =
          ((tbl_of xs)[length xs := alloc_fill (tbl_of xs ! length xs) nm isd], Some (length xs))"
  proof (rule fs_alloc_entry_ok)
    fix j assume "j < ENIXNEL_MAX_FS_ENTRIES"
    then show "\<not> holds_name (tbl_of xs) nm j"
      using assms(2) by (auto simp: holds_name_tbl_of)
  next
    fix j assume "j < length xs"
    then show "used (tbl_of xs ! j) \<noteq> 0"
      using assms(1,2) by (simp add: nth_tbl_of)
  qed (use assms in \<open>simp_all add: nth_tbl_of\<close>)
  then show ?thesis using assms(1) by (simp add: nth_tbl_of tbl_of_extend)
qed

lemma fs_create_tbl_of:
  assumes "length xs < ENIXNEL_MAX_FS_ENTRIES"
    and "\<forall>e \<in> set xs. used e \<noteq> 0 \<and> name e \<noteq> nm"
    and "0 < length nm" "length nm \<le> ENIXNEL_MAX_NAME_LEN"
  shows "fs_create_dir (tbl_of xs) (Some nm) = (tbl_of (xs @ [dir_entry nm]), 0)"
    and "fs_create_file (tbl_of xs) (Some nm) = (tbl_of (xs @ [file_entry nm]), 0)"
  using fs_alloc_entry_tbl_of [OF assms]
  by (simp_all add: fs_create_dir_def fs_create_file_def alloc_fill_zero)

lemma fs_zero_tbl_of: "fs_zero = tbl_of []"
  by (simp add: fs_zero_def tbl_of_def)

lemma fs_init_layout_boot: "fs_init_layout fs_zero = tbl_of boot_entries"
  by (simp add: fs_init_layout_def fs_zero_tbl_of fs_create_tbl_of boot_entries_def)

lemma boot_slot:
  "i < length boot_entries \<Longrightarrow> fs_init_layout fs_zero ! i = boot_entries ! i"
  by (simp add: fs_init_layout_boot nth_tbl_of boot_entries_def)

section \<open>Creating a name that is already present\<close>

text \<open>
  C7.  If some used slot of the table already stores the name, then \<open>fs_create_dir\<close> and
  \<open>fs_create_file\<close> both fail (whatever the kind of the existing entry), and the table
  they leave is the table they were given.
\<close>

theorem create_existing_name_fails:
  "i < ENIXNEL_MAX_FS_ENTRIES \<Longrightarrow> used (tbl ! i) \<noteq> 0 \<Longrightarrow> name (tbl ! i) = nm \<Longrightarrow>
     fs_create_dir tbl (Some nm) = (tbl, -1) \<and> fs_create_file tbl (Some nm) = (tbl, -1)"
proof -
  assume "i < ENIXNEL_MAX_FS_ENTRIES" "used (tbl ! i) \<noteq> 0" "name (tbl ! i) = nm"
  then have "holds_name tbl nm i" by (simp add: holds_name_def)
  with \<open>i < ENIXNEL_MAX_FS_ENTRIES\<close> have "fs_alloc_entry tbl (Some nm) isd = (tbl, None)" for isd
    by (rule fs_alloc_entry_present)
  then show ?thesis by (simp add: fs_create_dir_def fs_create_file_def)
qed

text \<open>At boot slot 1 is the directory \<open>user\<close>: neither a file nor a directory of that name can be created.\<close>

theorem create_existing_name_fails_witness:
  "(1::nat) < ENIXNEL_MAX_FS_ENTRIES \<and> used (fs_init_layout fs_zero ! 1) \<noteq> 0 \<and>
   is_dir (fs_init_layout fs_zero ! 1) \<noteq> 0 \<and> name (fs_init_layout fs_zero ! 1) = ''user'' \<and>
   fs_create_dir (fs_init_layout fs_zero) (Some ''user'') = (fs_init_layout fs_zero, -1) \<and>
   fs_create_file (fs_init_layout fs_zero) (Some ''user'') = (fs_init_layout fs_zero, -1)"
proof -
  have slot: "fs_init_layout fs_zero ! 1 = dir_entry ''user''"
    by (simp add: boot_slot boot_entries_def)
  have "fs_create_dir (fs_init_layout fs_zero) (Some ''user'') = (fs_init_layout fs_zero, -1) \<and>
        fs_create_file (fs_init_layout fs_zero) (Some ''user'') = (fs_init_layout fs_zero, -1)"
    by (rule create_existing_name_fails [of 1]) (use slot in simp_all)
  then show ?thesis using slot by simp
qed

section \<open>Lookup in a table given by its leading slots\<close>

lemma fs_find_index_tbl_of:
  assumes "k < length xs" "length xs \<le> ENIXNEL_MAX_FS_ENTRIES"
    and "used (xs ! k) \<noteq> 0" "name (xs ! k) = nm"
    and "\<forall>e \<in> set (take k xs). name e \<noteq> nm"
  shows "fs_find_index (tbl_of xs) (Some nm) = Some k"
proof (rule fs_find_index_first)
  show "k < ENIXNEL_MAX_FS_ENTRIES" using assms(1,2) by arith
  then show "holds_name (tbl_of xs) nm k" using assms by (simp add: holds_name_tbl_of)
next
  fix j assume "j < k"
  with assms(1) have "take k xs ! j \<in> set (take k xs)" by (intro nth_mem) simp
  with \<open>j < k\<close> have "xs ! j \<in> set (take k xs)" by simp
  with assms(5) have "name (xs ! j) \<noteq> nm" by blast
  moreover from \<open>j < k\<close> assms(1,2) have "j < ENIXNEL_MAX_FS_ENTRIES" by arith
  ultimately show "\<not> holds_name (tbl_of xs) nm j" by (simp add: holds_name_tbl_of)
qed

lemma fs_find_index_tbl_of_absent:
  assumes "\<forall>e \<in> set xs. name e \<noteq> nm"
  shows "fs_find_index (tbl_of xs) (Some nm) = None"
proof -
  have "\<not> holds_name (tbl_of xs) nm j" if "j < ENIXNEL_MAX_FS_ENTRIES" for j
    using that assms by (simp add: holds_name_tbl_of)
  then show ?thesis by (simp add: fs_find_index_None_iff)
qed


section \<open>Deleting\<close>

lemma fs_delete_cases:
  assumes "fs_delete_dir tbl nm = (tbl', 0) \<or> fs_delete_file tbl nm = (tbl', 0)"
  shows "\<exists>idx. fs_find_index tbl nm = Some idx \<and>
           tbl' = tbl[idx := (tbl ! idx)\<lparr>used := 0, is_dir := 0, name := []\<rparr>]"
  using assms
  by (auto simp: fs_delete_dir_def fs_delete_file_def split: option.splits if_splits)

text \<open>
  C9.  A delete call that returns 0 found the name in some slot; in the table it leaves,
  that slot has \<open>used\<close>, \<open>is_dir\<close> and the name cleared, its data bytes and its size are
  as before, and every other slot is as before.
\<close>

theorem delete_clears_flags_and_name_only:
  assumes "length tbl = ENIXNEL_MAX_FS_ENTRIES"
    and "fs_delete_dir tbl nm = (tbl', 0) \<or> fs_delete_file tbl nm = (tbl', 0)"
  shows "\<exists>idx < ENIXNEL_MAX_FS_ENTRIES. fs_find_index tbl nm = Some idx \<and>
           used (tbl' ! idx) = 0 \<and> is_dir (tbl' ! idx) = 0 \<and> name (tbl' ! idx) = [] \<and>
           data (tbl' ! idx) = data (tbl ! idx) \<and> size_e (tbl' ! idx) = size_e (tbl ! idx) \<and>
           (\<forall>j. j \<noteq> idx \<longrightarrow> tbl' ! j = tbl ! j) \<and> length tbl' = length tbl"
proof -
  from fs_delete_cases [OF assms(2)] obtain idx where
    idx: "fs_find_index tbl nm = Some idx"
    and tbl': "tbl' = tbl[idx := (tbl ! idx)\<lparr>used := 0, is_dir := 0, name := []\<rparr>]"
    by blast
  from fs_find_index_Some [OF idx] have inb: "idx < ENIXNEL_MAX_FS_ENTRIES" by blast
  with assms(1) have "idx < length tbl" by simp
  with tbl' idx inb show ?thesis by auto
qed

text \<open>Deleting the file \<open>bin/cd\<close> (slot 11) from the boot layout.\<close>

theorem delete_clears_flags_and_name_only_witness:
  "length (fs_init_layout fs_zero) = ENIXNEL_MAX_FS_ENTRIES \<and>
   snd (fs_delete_file (fs_init_layout fs_zero) (Some ''bin/cd'')) = 0 \<and>
   fs_find_index (fs_init_layout fs_zero) (Some ''bin/cd'') = Some 11 \<and>
   used (fst (fs_delete_file (fs_init_layout fs_zero) (Some ''bin/cd'')) ! 11) = 0 \<and>
   name (fst (fs_delete_file (fs_init_layout fs_zero) (Some ''bin/cd'')) ! 11) = [] \<and>
   data (fst (fs_delete_file (fs_init_layout fs_zero) (Some ''bin/cd'')) ! 11) =
     data (fs_init_layout fs_zero ! 11) \<and>
   fst (fs_delete_file (fs_init_layout fs_zero) (Some ''bin/cd'')) ! 1 = fs_init_layout fs_zero ! 1"
proof -
  let ?t = "fs_init_layout fs_zero"
  have len: "length ?t = ENIXNEL_MAX_FS_ENTRIES"
    by (simp add: fs_init_layout_boot boot_entries_def)
  have idx: "fs_find_index ?t (Some ''bin/cd'') = Some 11"
    unfolding fs_init_layout_boot
    by (rule fs_find_index_tbl_of) (simp_all add: boot_entries_def)
  have slot: "is_dir (?t ! 11) = 0"
    by (simp add: boot_slot boot_entries_def)
  obtain t' where t': "fs_delete_file ?t (Some ''bin/cd'') = (t', 0)"
    using idx slot by (simp add: fs_delete_file_def)
  from delete_clears_flags_and_name_only [OF len disjI2, OF t'] idx have
    "used (t' ! 11) = 0 \<and> name (t' ! 11) = [] \<and> data (t' ! 11) = data (?t ! 11) \<and>
     t' ! 1 = ?t ! 1"
    by auto
  with len idx t' show ?thesis by simp
qed

section \<open>Writing\<close>

lemma fs_write_at_cases:
  "fs_write_at tbl idx src len append_f = (tbl', rc) \<Longrightarrow>
     (rc = -1 \<and> tbl' = tbl \<and> append_f \<noteq> 0 \<and> ENIXNEL_MAX_FILE_SIZE \<le> unat (size_e (tbl ! idx))) \<or> rc = 0"
  by (auto simp: fs_write_at_def Let_def split: if_splits)

lemma fs_write_at_fresh:
  "size_e (tbl ! idx) = 0 \<Longrightarrow> snd (fs_write_at tbl idx src len append_f) = 0"
  by (simp add: fs_write_at_def Let_def)

text \<open>
  C10.  When \<open>fs_write_file\<close> returns a non-zero result, the table it leaves is the table
  it was given: no slot was allocated and no field of any slot was stored.
\<close>

theorem write_failure_leaves_table:
  assumes "length tbl = ENIXNEL_MAX_FS_ENTRIES"
    and "fs_write_file tbl nm dat len append_f = (tbl', rc)" and "rc \<noteq> 0"
  shows "tbl' = tbl"
proof (cases "nm = None \<or> (dat = None \<and> len > 0)")
  case True
  with assms(2) show ?thesis by (auto simp: fs_write_file_def)
next
  case args_ok: False
  define src where "src = (case dat of None \<Rightarrow> [] | Some d \<Rightarrow> d)"
  show ?thesis
  proof (cases "fs_find_index tbl nm")
    case (Some idx)
    show ?thesis
    proof (cases "is_dir (tbl ! idx) \<noteq> 0")
      case True
      with assms(2) args_ok Some show ?thesis by (auto simp: fs_write_file_def)
    next
      case False
      with assms(2) args_ok Some have "fs_write_at tbl idx src len append_f = (tbl', rc)"
        by (auto simp: fs_write_file_def src_def)
      from fs_write_at_cases [OF this] assms(3) show ?thesis by auto
    qed
  next
    case None
    obtain tbl1 r where alloc: "fs_alloc_entry tbl nm 0 = (tbl1, r)"
      by (cases "fs_alloc_entry tbl nm 0")
    show ?thesis
    proof (cases r)
      case none: None
      with alloc have "tbl1 = tbl" by (auto dest: fs_alloc_entry_fail)
      with assms(2) args_ok None alloc none show ?thesis by (auto simp: fs_write_file_def)
    next
      case (Some idx)
      define tbl2 where
        "tbl2 = tbl1[idx := (tbl1 ! idx)\<lparr>size_e := 0, data := (data (tbl1 ! idx))[0 := NUL]\<rparr>]"
      from alloc Some fs_alloc_entry_Some [of tbl nm 0 tbl1 idx] have
        inb: "idx < ENIXNEL_MAX_FS_ENTRIES" and "tbl1 = tbl[idx := alloc_fill (tbl ! idx) (the nm) 0]"
        by auto
      with assms(1) have "idx < length tbl1" by simp
      then have "size_e (tbl2 ! idx) = 0" by (simp add: tbl2_def)
      then have "snd (fs_write_at tbl2 idx src len append_f) = 0" by (rule fs_write_at_fresh)
      moreover from assms(2) args_ok None alloc Some have
        "fs_write_at tbl2 idx src len append_f = (tbl', rc)"
        by (auto simp: fs_write_file_def src_def tbl2_def Let_def)
      ultimately show ?thesis using assms(3) by simp
    qed
  qed
qed

text \<open>Writing to the directory \<open>user\<close> of the boot layout fails and leaves the layout.\<close>

theorem write_failure_leaves_table_witness:
  "length (fs_init_layout fs_zero) = ENIXNEL_MAX_FS_ENTRIES \<and>
   snd (fs_write_file (fs_init_layout fs_zero) (Some ''user'') (Some ''x'') 1 0) = -1 \<and>
   fst (fs_write_file (fs_init_layout fs_zero) (Some ''user'') (Some ''x'') 1 0) = fs_init_layout fs_zero"
proof -
  let ?t = "fs_init_layout fs_zero"
  have len: "length ?t = ENIXNEL_MAX_FS_ENTRIES"
    by (simp add: fs_init_layout_boot boot_entries_def)
  have idx: "fs_find_index ?t (Some ''user'') = Some 1"
    unfolding fs_init_layout_boot
    by (rule fs_find_index_tbl_of) (simp_all add: boot_entries_def)
  have slot: "is_dir (?t ! 1) = 1"
    using boot_slot [of 1] by (simp add: boot_entries_def)
  have rc: "snd (fs_write_file ?t (Some ''user'') (Some ''x'') 1 0) = -1"
    using idx slot by (simp add: fs_write_file_def)
  obtain t' where t': "fs_write_file ?t (Some ''user'') (Some ''x'') 1 0 = (t', -1)"
    using rc by (cases "fs_write_file ?t (Some ''user'') (Some ''x'') 1 0") auto
  from write_failure_leaves_table [OF len t'] have "t' = ?t" by simp
  with len rc t' show ?thesis by simp
qed

section \<open>Allocation when a slot is free\<close>

lemma alloc_fill_used [simp]: "used (alloc_fill e nm isd) = 1" "name (alloc_fill e nm isd) = nm"
  by (simp_all add: alloc_fill_def Let_def)

lemma create_succeeds:
  assumes "length tbl = ENIXNEL_MAX_FS_ENTRIES"
    and "0 < length nm" "length nm \<le> ENIXNEL_MAX_NAME_LEN"
    and "\<forall>j < ENIXNEL_MAX_FS_ENTRIES. \<not> holds_name tbl nm j"
    and "m < ENIXNEL_MAX_FS_ENTRIES" "used (tbl ! m) = 0"
  shows "\<exists>k < ENIXNEL_MAX_FS_ENTRIES. \<forall>isd.
           fs_alloc_entry tbl (Some nm) isd = (tbl[k := alloc_fill (tbl ! k) nm isd], Some k)"
proof -
  from first_free_slot [of 0 m tbl] assms(5,6) obtain k where
    k: "k \<le> m" "used (tbl ! k) = 0" "\<forall>j. j < k \<longrightarrow> used (tbl ! j) \<noteq> 0" by auto
  with assms(5) have kb: "k < ENIXNEL_MAX_FS_ENTRIES" by arith
  have "fs_alloc_entry tbl (Some nm) isd = (tbl[k := alloc_fill (tbl ! k) nm isd], Some k)" for isd
    using assms(2,3,4) k kb by (intro fs_alloc_entry_ok) auto
  with kb show ?thesis by blast
qed

section \<open>Uniqueness of names\<close>

lemma names_unique_keep:
  assumes "names_unique t" "k < length t" "used e = used (t ! k)" "name e = name (t ! k)"
  shows "names_unique (t[k := e])"
  unfolding names_unique_def
proof (intro allI impI)
  fix i j
  assume "i < ENIXNEL_MAX_FS_ENTRIES" "j < ENIXNEL_MAX_FS_ENTRIES"
    and "used (t[k := e] ! i) \<noteq> 0 \<and> used (t[k := e] ! j) \<noteq> 0 \<and> name (t[k := e] ! i) = name (t[k := e] ! j)"
  moreover have "used (t[k := e] ! m) = used (t ! m) \<and> name (t[k := e] ! m) = name (t ! m)" for m
    using assms(2,3,4) by (cases "m = k") simp_all
  ultimately show "i = j" using assms(1) unfolding names_unique_def by metis
qed

lemma names_unique_free:
  assumes "names_unique t" "k < length t" "used e = 0"
  shows "names_unique (t[k := e])"
  unfolding names_unique_def
proof (intro allI impI)
  fix i j
  assume ij: "i < ENIXNEL_MAX_FS_ENTRIES" "j < ENIXNEL_MAX_FS_ENTRIES"
    and u: "used (t[k := e] ! i) \<noteq> 0 \<and> used (t[k := e] ! j) \<noteq> 0 \<and> name (t[k := e] ! i) = name (t[k := e] ! j)"
  from u assms(2,3) have "i \<noteq> k" "j \<noteq> k" by auto
  with u have "used (t ! i) \<noteq> 0 \<and> used (t ! j) \<noteq> 0 \<and> name (t ! i) = name (t ! j)" by simp
  with ij assms(1) show "i = j" unfolding names_unique_def by blast
qed

lemma names_unique_new:
  assumes "names_unique t" "k < length t"
    and "\<forall>j < ENIXNEL_MAX_FS_ENTRIES. \<not> holds_name t (name e) j"
  shows "names_unique (t[k := e])"
  unfolding names_unique_def
proof (intro allI impI)
  fix i j
  assume ij: "i < ENIXNEL_MAX_FS_ENTRIES" "j < ENIXNEL_MAX_FS_ENTRIES"
    and u: "used (t[k := e] ! i) \<noteq> 0 \<and> used (t[k := e] ! j) \<noteq> 0 \<and> name (t[k := e] ! i) = name (t[k := e] ! j)"
  show "i = j"
  proof (cases "i = k")
    case ik: True
    show ?thesis
    proof (rule ccontr)
      assume "i \<noteq> j"
      with ik u assms(2) have "used (t ! j) \<noteq> 0 \<and> name (t ! j) = name e" by simp
      with assms(3) ij show False by (auto simp: holds_name_def)
    qed
  next
    case nik: False
    show ?thesis
    proof (cases "j = k")
      case True
      with nik u assms(2) have "used (t ! i) \<noteq> 0 \<and> name (t ! i) = name e" by simp
      with assms(3) ij show ?thesis by (auto simp: holds_name_def)
    next
      case False
      with nik u have "used (t ! i) \<noteq> 0 \<and> used (t ! j) \<noteq> 0 \<and> name (t ! i) = name (t ! j)" by simp
      with ij assms(1) show ?thesis unfolding names_unique_def by blast
    qed
  qed
qed

text \<open>The shape of the table: 128 slots.  It is kept by every call, together with uniqueness.\<close>

lemma fs_alloc_entry_inv:
  assumes "length t = ENIXNEL_MAX_FS_ENTRIES" "names_unique t"
  shows "length (fst (fs_alloc_entry t nm isd)) = ENIXNEL_MAX_FS_ENTRIES \<and>
         names_unique (fst (fs_alloc_entry t nm isd))"
proof -
  obtain t' r where a: "fs_alloc_entry t nm isd = (t', r)" by (cases "fs_alloc_entry t nm isd")
  show ?thesis
  proof (cases r)
    case None
    with a have "t' = t" by (auto dest: fs_alloc_entry_fail)
    with a assms show ?thesis by simp
  next
    case (Some k)
    with a fs_alloc_entry_Some [of t nm isd t' k] obtain s where
      s: "\<forall>j < ENIXNEL_MAX_FS_ENTRIES. \<not> holds_name t s j" "k < ENIXNEL_MAX_FS_ENTRIES"
         "t' = t[k := alloc_fill (t ! k) s isd]"
      by auto
    have "names_unique (t[k := alloc_fill (t ! k) s isd])"
      using assms s(1,2) by (intro names_unique_new) simp_all
    with a s(3) assms(1) show ?thesis by simp
  qed
qed

lemma fs_create_inv:
  assumes "length t = ENIXNEL_MAX_FS_ENTRIES" "names_unique t"
  shows "length (fst (fs_create_dir t nm)) = ENIXNEL_MAX_FS_ENTRIES \<and> names_unique (fst (fs_create_dir t nm))"
    and "length (fst (fs_create_file t nm)) = ENIXNEL_MAX_FS_ENTRIES \<and> names_unique (fst (fs_create_file t nm))"
  using fs_alloc_entry_inv [OF assms, of nm 1] fs_alloc_entry_inv [OF assms, of nm 0]
  by (simp_all add: fs_create_dir_def fs_create_file_def split_beta)

lemma fs_delete_inv:
  assumes "length t = ENIXNEL_MAX_FS_ENTRIES" "names_unique t"
  shows "length (fst (fs_delete_dir t nm)) = ENIXNEL_MAX_FS_ENTRIES \<and> names_unique (fst (fs_delete_dir t nm))"
    and "length (fst (fs_delete_file t nm)) = ENIXNEL_MAX_FS_ENTRIES \<and> names_unique (fst (fs_delete_file t nm))"
proof -
  have upd: "names_unique (t[idx := (t ! idx)\<lparr>used := 0, is_dir := 0, name := []\<rparr>])"
    if "fs_find_index t nm = Some idx" for idx
  proof -
    from fs_find_index_Some [OF that] assms(1) have "idx < length t" by auto
    with assms(2) show ?thesis by (intro names_unique_free) simp_all
  qed
  show "length (fst (fs_delete_dir t nm)) = ENIXNEL_MAX_FS_ENTRIES \<and> names_unique (fst (fs_delete_dir t nm))"
    using assms upd by (simp add: fs_delete_dir_def split: option.splits)
  show "length (fst (fs_delete_file t nm)) = ENIXNEL_MAX_FS_ENTRIES \<and> names_unique (fst (fs_delete_file t nm))"
    using assms upd by (simp add: fs_delete_file_def split: option.splits)
qed

lemma fs_write_at_inv:
  assumes "length t = ENIXNEL_MAX_FS_ENTRIES" "names_unique t" "idx < ENIXNEL_MAX_FS_ENTRIES"
  shows "length (fst (fs_write_at t idx src len append_f)) = ENIXNEL_MAX_FS_ENTRIES \<and>
         names_unique (fst (fs_write_at t idx src len append_f))"
proof -
  have "names_unique (t[idx := (t ! idx)\<lparr>size_e := sz, data := d\<rparr>])" for sz d
    using assms by (intro names_unique_keep) simp_all
  with assms(1,2) show ?thesis by (simp add: fs_write_at_def Let_def)
qed

lemma fs_write_file_inv:
  assumes "length t = ENIXNEL_MAX_FS_ENTRIES" "names_unique t"
  shows "length (fst (fs_write_file t nm dat len append_f)) = ENIXNEL_MAX_FS_ENTRIES \<and>
         names_unique (fst (fs_write_file t nm dat len append_f))"
proof (cases "nm = None \<or> (dat = None \<and> len > 0)")
  case True
  with assms show ?thesis by (auto simp: fs_write_file_def)
next
  case args_ok: False
  define src where "src = (case dat of None \<Rightarrow> [] | Some d \<Rightarrow> d)"
  show ?thesis
  proof (cases "fs_find_index t nm")
    case (Some idx)
    from fs_find_index_Some [OF Some] have "idx < ENIXNEL_MAX_FS_ENTRIES" by blast
    from fs_write_at_inv [OF assms this] args_ok Some assms show ?thesis
      by (auto simp: fs_write_file_def)
  next
    case None
    obtain t1 r where alloc: "fs_alloc_entry t nm 0 = (t1, r)" by (cases "fs_alloc_entry t nm 0")
    from fs_alloc_entry_inv [OF assms, of nm 0] alloc have
      t1: "length t1 = ENIXNEL_MAX_FS_ENTRIES" "names_unique t1" by simp_all
    show ?thesis
    proof (cases r)
      case none: None
      with args_ok None alloc t1 show ?thesis by (auto simp: fs_write_file_def)
    next
      case (Some idx)
      define t2 where
        "t2 = t1[idx := (t1 ! idx)\<lparr>size_e := 0, data := (data (t1 ! idx))[0 := NUL]\<rparr>]"
      from alloc Some fs_alloc_entry_Some [of t nm 0 t1 idx] have
        inb: "idx < ENIXNEL_MAX_FS_ENTRIES" by auto
      have "names_unique t2" unfolding t2_def
        using t1 inb by (intro names_unique_keep) simp_all
      moreover have "length t2 = ENIXNEL_MAX_FS_ENTRIES" using t1 by (simp add: t2_def)
      ultimately have "length (fst (fs_write_at t2 idx src len append_f)) = ENIXNEL_MAX_FS_ENTRIES \<and>
         names_unique (fst (fs_write_at t2 idx src len append_f))"
        using inb by (intro fs_write_at_inv)
      moreover from args_ok None alloc Some have
        "fs_write_file t nm dat len append_f = fs_write_at t2 idx src len append_f"
        by (auto simp: fs_write_file_def src_def t2_def Let_def)
      ultimately show ?thesis by simp
    qed
  qed
qed

lemma fs_zero_inv: "length fs_zero = ENIXNEL_MAX_FS_ENTRIES \<and> names_unique fs_zero"
  by (simp add: fs_zero_def names_unique_def)

lemma create_files_inv:
  "length t = ENIXNEL_MAX_FS_ENTRIES \<and> names_unique t \<Longrightarrow>
     length (foldl (\<lambda>t nm. fst (fs_create_file t (Some nm))) t nms) = ENIXNEL_MAX_FS_ENTRIES \<and>
     names_unique (foldl (\<lambda>t nm. fst (fs_create_file t (Some nm))) t nms)"
  by (induction nms arbitrary: t) (simp_all add: fs_create_inv)

lemma fs_init_layout_inv:
  "length (fs_init_layout fs_zero) = ENIXNEL_MAX_FS_ENTRIES \<and> names_unique (fs_init_layout fs_zero)"
  unfolding fs_init_layout_def Let_def
  by (intro create_files_inv fs_create_inv) (simp_all add: fs_create_inv fs_zero_inv)

lemma reachable_inv: "t \<in> reachable \<Longrightarrow> length t = ENIXNEL_MAX_FS_ENTRIES \<and> names_unique t"
proof (induction rule: reachable.induct)
  case init
  show ?case by (rule fs_init_layout_inv)
next
  case (create_dir t nm)
  then show ?case by (simp add: fs_create_inv)
next
  case (create_file t nm)
  then show ?case by (simp add: fs_create_inv)
next
  case (delete_dir t nm)
  then show ?case by (simp add: fs_delete_inv)
next
  case (delete_file t nm)
  then show ?case by (simp add: fs_delete_inv)
next
  case (write_file t nm dat len append_f)
  then show ?case by (simp add: fs_write_file_inv)
qed

text \<open>
  C2.  In every table reachable from the boot layout by create, delete and write calls,
  no two used slots store the same name; and each of these calls, on any 128-slot table
  with that property, leaves a table with that property.
\<close>

theorem used_names_unique:
  "(t \<in> reachable \<longrightarrow> names_unique t) \<and>
   (length t = ENIXNEL_MAX_FS_ENTRIES \<and> names_unique t \<longrightarrow>
      names_unique (fst (fs_create_dir t nm)) \<and> names_unique (fst (fs_create_file t nm)) \<and>
      names_unique (fst (fs_delete_dir t nm)) \<and> names_unique (fst (fs_delete_file t nm)) \<and>
      names_unique (fst (fs_write_file t nm dat len append_f)))"
  using reachable_inv [of t] fs_create_inv [of t nm] fs_delete_inv [of t nm]
    fs_write_file_inv [of t nm dat len append_f]
  by blast

text \<open>
  The boot layout, and the table after creating the file \<open>user/notes\<close> in it and writing
  to it: the used slots 0 and 1 of the latter have different names.
\<close>

theorem used_names_unique_witness:
  "fs_init_layout fs_zero \<in> reachable \<and> names_unique (fs_init_layout fs_zero) \<and>
   fst (fs_write_file (fs_init_layout fs_zero) (Some ''user/notes'') (Some ''hi'') 2 0) \<in> reachable \<and>
   names_unique (fst (fs_write_file (fs_init_layout fs_zero) (Some ''user/notes'') (Some ''hi'') 2 0)) \<and>
   used (fs_init_layout fs_zero ! 0) \<noteq> 0 \<and> used (fs_init_layout fs_zero ! 1) \<noteq> 0 \<and>
   name (fs_init_layout fs_zero ! 0) \<noteq> name (fs_init_layout fs_zero ! 1)"
proof -
  let ?t = "fs_init_layout fs_zero"
  let ?t' = "fst (fs_write_file ?t (Some ''user/notes'') (Some ''hi'') 2 0)"
  have r: "?t \<in> reachable" by (rule reachable.init)
  then have r': "?t' \<in> reachable" by (rule reachable.write_file)
  from used_names_unique [of ?t] r have u: "names_unique ?t" by blast
  from used_names_unique [of ?t'] r' have u': "names_unique ?t'" by blast
  have "?t ! 0 = dir_entry ''bin''" "?t ! 1 = dir_entry ''user''"
    using boot_slot [of 0] boot_slot [of 1] by (simp_all add: boot_entries_def)
  with r r' u u' show ?thesis by simp
qed

section \<open>Capacity of the table\<close>

text \<open>
  C8.  Every reachable table has 128 slots, so at most 128 entries are in use at a time.
  When all 128 slots of a table are in use, creating a valid name that is not present
  fails and leaves the table; after any successful delete the same create succeeds, and
  the name is then found.
\<close>

theorem full_table_create_fails_until_delete:
  "(tbl \<in> reachable \<longrightarrow>
      length tbl = ENIXNEL_MAX_FS_ENTRIES \<and>
      length (filter (\<lambda>e. used e \<noteq> 0) tbl) \<le> ENIXNEL_MAX_FS_ENTRIES) \<and>
   (length tbl = ENIXNEL_MAX_FS_ENTRIES \<and>
    (\<forall>i < ENIXNEL_MAX_FS_ENTRIES. used (tbl ! i) \<noteq> 0 \<and> name (tbl ! i) \<noteq> nm) \<and>
    0 < length nm \<and> length nm \<le> ENIXNEL_MAX_NAME_LEN \<longrightarrow>
      fs_create_dir tbl (Some nm) = (tbl, -1) \<and> fs_create_file tbl (Some nm) = (tbl, -1) \<and>
      (\<forall>victim tbl'.
         fs_delete_dir tbl victim = (tbl', 0) \<or> fs_delete_file tbl victim = (tbl', 0) \<longrightarrow>
           snd (fs_create_dir tbl' (Some nm)) = 0 \<and>
           fs_find_index (fst (fs_create_dir tbl' (Some nm))) (Some nm) \<noteq> None \<and>
           snd (fs_create_file tbl' (Some nm)) = 0 \<and>
           fs_find_index (fst (fs_create_file tbl' (Some nm))) (Some nm) \<noteq> None))"
proof (intro conjI impI allI)
  assume "tbl \<in> reachable"
  then show len: "length tbl = ENIXNEL_MAX_FS_ENTRIES" by (simp add: reachable_inv)
  show "length (filter (\<lambda>e. used e \<noteq> 0) tbl) \<le> ENIXNEL_MAX_FS_ENTRIES"
    using length_filter_le [of "\<lambda>e. used e \<noteq> 0" tbl] len by simp
next
  assume full: "length tbl = ENIXNEL_MAX_FS_ENTRIES \<and>
    (\<forall>i < ENIXNEL_MAX_FS_ENTRIES. used (tbl ! i) \<noteq> 0 \<and> name (tbl ! i) \<noteq> nm) \<and>
    0 < length nm \<and> length nm \<le> ENIXNEL_MAX_NAME_LEN"
  then have len: "length tbl = ENIXNEL_MAX_FS_ENTRIES" by simp
  from full have "fs_alloc_entry tbl (Some nm) isd = (tbl, None)" for isd
    by (intro fs_alloc_entry_full) simp
  then show "fs_create_dir tbl (Some nm) = (tbl, -1)" "fs_create_file tbl (Some nm) = (tbl, -1)"
    by (simp_all add: fs_create_dir_def fs_create_file_def)
  fix victim tbl'
  assume del: "fs_delete_dir tbl victim = (tbl', 0) \<or> fs_delete_file tbl victim = (tbl', 0)"
  from fs_delete_cases [OF del] obtain idx where
    idx: "fs_find_index tbl victim = Some idx"
    and tbl': "tbl' = tbl[idx := (tbl ! idx)\<lparr>used := 0, is_dir := 0, name := []\<rparr>]"
    by blast
  from fs_find_index_Some [OF idx] have inb: "idx < ENIXNEL_MAX_FS_ENTRIES" by blast
  have len': "length tbl' = ENIXNEL_MAX_FS_ENTRIES" using tbl' len by simp
  have free: "used (tbl' ! idx) = 0" using tbl' inb len by simp
  have absent: "\<forall>j < ENIXNEL_MAX_FS_ENTRIES. \<not> holds_name tbl' nm j"
  proof (intro allI impI)
    fix j assume "j < ENIXNEL_MAX_FS_ENTRIES"
    with full tbl' inb len show "\<not> holds_name tbl' nm j"
      by (cases "j = idx") (simp_all add: holds_name_def)
  qed
  from create_succeeds [OF len' _ _ absent inb free] full obtain k where
    kb: "k < ENIXNEL_MAX_FS_ENTRIES"
    and k: "\<And>isd. fs_alloc_entry tbl' (Some nm) isd = (tbl'[k := alloc_fill (tbl' ! k) nm isd], Some k)"
    by blast
  have found: "fs_find_index (tbl'[k := alloc_fill (tbl' ! k) nm isd]) (Some nm) \<noteq> None" for isd
    using kb len' by (auto simp: fs_find_index_None_iff holds_name_def intro!: exI [of _ k])
  show "snd (fs_create_dir tbl' (Some nm)) = 0" "snd (fs_create_file tbl' (Some nm)) = 0"
    by (simp_all add: fs_create_dir_def fs_create_file_def k)
  show "fs_find_index (fst (fs_create_dir tbl' (Some nm))) (Some nm) \<noteq> None"
    "fs_find_index (fst (fs_create_file tbl' (Some nm))) (Some nm) \<noteq> None"
    using found by (simp_all add: fs_create_dir_def fs_create_file_def k)
qed

lemma full_table_slot:
  "i < ENIXNEL_MAX_FS_ENTRIES \<Longrightarrow>
     full_table ! i =
       file_entry (replicate (i mod 16 + 1) (CHR ''a'') @ replicate (i div 16 + 1) (CHR ''b''))"
  by (simp add: full_table_def del: replicate_Suc replicate.simps)

lemma length_full_table: "length full_table = ENIXNEL_MAX_FS_ENTRIES"
  by (simp add: full_table_def)

text \<open>
  In the full table the file \<open>c\<close> cannot be created; once the file \<open>ab\<close> of slot 0 is
  deleted it can.
\<close>

theorem full_table_create_fails_until_delete_witness:
  "fs_init_layout fs_zero \<in> reachable \<and>
   length (filter (\<lambda>e. used e \<noteq> 0) (fs_init_layout fs_zero)) \<le> ENIXNEL_MAX_FS_ENTRIES \<and>
   length full_table = ENIXNEL_MAX_FS_ENTRIES \<and>
   fs_create_file full_table (Some ''c'') = (full_table, -1) \<and>
   snd (fs_delete_file full_table (Some ''ab'')) = 0 \<and>
   snd (fs_create_file (fst (fs_delete_file full_table (Some ''ab''))) (Some ''c'')) = 0"
proof -
  have full: "length full_table = ENIXNEL_MAX_FS_ENTRIES \<and>
      (\<forall>i < ENIXNEL_MAX_FS_ENTRIES. used (full_table ! i) \<noteq> 0 \<and> name (full_table ! i) \<noteq> ''c'') \<and>
      0 < length ''c'' \<and> length ''c'' \<le> ENIXNEL_MAX_NAME_LEN"
    by (simp add: full_table_slot length_full_table)
  have slot0: "full_table ! 0 = file_entry ''ab''"
    by (simp add: full_table_slot)
  have "fs_find_index full_table (Some ''ab'') = Some 0"
    by (rule fs_find_index_first) (simp_all add: holds_name_def slot0)
  then obtain t' where del: "fs_delete_file full_table (Some ''ab'') = (t', 0)"
    by (simp add: fs_delete_file_def slot0)
  from full_table_create_fails_until_delete [of full_table "''c''"] full del
  have "fs_create_file full_table (Some ''c'') = (full_table, -1) \<and>
     snd (fs_create_file t' (Some ''c'')) = 0"
    by blast
  moreover from full_table_create_fails_until_delete [of "fs_init_layout fs_zero"] reachable.init
  have "length (filter (\<lambda>e. used e \<noteq> 0) (fs_init_layout fs_zero)) \<le> ENIXNEL_MAX_FS_ENTRIES"
    by blast
  ultimately show ?thesis using del length_full_table reachable.init by simp
qed

section \<open>Path helpers\<close>

lemma k_strlen_Some [simp]: "k_strlen (Some cs) = length cs"
  by (simp add: k_strlen_def strlen_loop_eq)

lemma chars_Some [simp]: "chars (Some cs) = cs"
  by (simp add: chars_def)

lemma copy_from_eq: "start + n \<le> length src \<Longrightarrow> copy_from src start n = take n (drop start src)"
proof (induction n)
  case 0
  show ?case by simp
next
  case (Suc n)
  then have "take (Suc n) (drop start src) = take n (drop start src) @ [src ! (start + n)]"
    by (simp add: take_Suc_conv_app_nth)
  with Suc show ?case by simp
qed

lemma copy_from_0: "n \<le> length src \<Longrightarrow> copy_from src 0 n = take n src"
  using copy_from_eq [of 0 n src] by simp

lemma copy_bounded_eq: "copy_bounded src out limit = out @ take (limit - length out) src"
proof (induction src arbitrary: out)
  case Nil
  show ?case by simp
next
  case (Cons c cs)
  show ?case
  proof (cases "length out < limit")
    case True
    then obtain m where m: "limit - length out = Suc m" by (cases "limit - length out") auto
    then have "limit - Suc (length out) = m" by arith
    with True m Cons show ?thesis by simp
  next
    case False
    then show ?thesis by simp
  qed
qed

text \<open>The position after the last separator, or 0 when there is none.\<close>

lemma last_slash_loop_none:
  "n \<le> length p \<Longrightarrow> CHR ''/'' \<notin> set (take n p) \<Longrightarrow> last_slash_loop p n = 0"
proof (induction n)
  case 0
  show ?case by simp
next
  case (Suc n)
  then have "take (Suc n) p = take n p @ [p ! n]" by (simp add: take_Suc_conv_app_nth)
  with Suc.prems have "p ! n \<noteq> CHR ''/''" "CHR ''/'' \<notin> set (take n p)" by auto
  with Suc show ?case by simp
qed

lemma last_slash_loop_append:
  assumes "CHR ''/'' \<notin> set n" "k \<le> length n"
  shows "last_slash_loop (p @ CHR ''/'' # n) (length p + 1 + k) = length p + 1"
  using assms(2)
proof (induction k)
  case 0
  show ?case by simp
next
  case (Suc k)
  then have "(p @ CHR ''/'' # n) ! (length p + 1 + k) = n ! k"
    by (simp add: nth_append)
  moreover from Suc have "n ! k \<in> set n" by simp
  with assms(1) have "n ! k \<noteq> CHR ''/''" by auto
  ultimately have "(p @ CHR ''/'' # n) ! (length p + 1 + k) \<noteq> CHR ''/''" by simp
  with Suc show ?case by simp
qed

lemma last_slash_loop_sep:
  "CHR ''/'' \<notin> set n \<Longrightarrow>
     last_slash_loop (p @ CHR ''/'' # n) (length (p @ CHR ''/'' # n)) = Suc (length p)"
  using last_slash_loop_append [of n "length n" p] by simp

lemma path_join_root:
  assumes "0 < out_size"
  shows "path_join (Some []) (Some n) (Some out) out_size = Some (take (out_size - 1) n)"
proof (cases "length n \<ge> out_size")
  case True
  with assms show ?thesis by (simp add: path_join_def copy_from_eq)
next
  case False
  with assms show ?thesis by (simp add: path_join_def copy_from_eq)
qed

lemma path_join_dir:
  assumes "0 < out_size" "p \<noteq> []"
  shows "path_join (Some p) (Some n) (Some out) out_size =
           Some (take (out_size - 1) (p @ CHR ''/'' # n))"
proof (cases "length p < out_size - 1")
  case True
  then have "take (out_size - 1) (p @ CHR ''/'' # n) =
      p @ CHR ''/'' # take (out_size - 1 - (length p + 1)) n"
    by (simp add: take_Cons')
  moreover have "copy_bounded p [] (out_size - 1) = p"
    using True by (simp add: copy_bounded_eq)
  ultimately show ?thesis using assms True
    by (simp add: path_join_def Let_def copy_bounded_eq)
next
  case False
  then have "copy_bounded p [] (out_size - 1) = take (out_size - 1) p"
    "length (take (out_size - 1) p) = out_size - 1"
    by (simp_all add: copy_bounded_eq)
  with assms False show ?thesis
    by (simp add: path_join_def Let_def copy_bounded_eq)
qed

lemma path_parent_sep:
  assumes "CHR ''/'' \<notin> set n" "0 < out_size"
  shows "path_parent (Some (p @ CHR ''/'' # n)) (Some out) out_size = Some (take (out_size - 1) p)"
proof -
  let ?path = "p @ CHR ''/'' # n"
  define plen where "plen = (if length p \<ge> out_size then out_size - 1 else length p)"
  have "path_parent (Some ?path) (Some out) out_size = Some (copy_from ?path 0 plen)"
    using assms(2) last_slash_loop_sep [OF assms(1), of p]
    by (simp add: path_parent_def Let_def plen_def del: last_slash_loop.simps)
  also have "copy_from ?path 0 plen = take plen ?path"
    by (rule copy_from_0) (auto simp: plen_def)
  also have "\<dots> = take (out_size - 1) p"
    using assms(2) by (simp add: plen_def)
  finally show ?thesis .
qed

lemma path_parent_no_sep:
  assumes "CHR ''/'' \<notin> set p" "0 < out_size"
  shows "path_parent (Some p) (Some out) out_size = Some []"
  using assms last_slash_loop_none [of "length p" p]
  by (simp add: path_parent_def Let_def)

lemma path_basename_sep:
  assumes "CHR ''/'' \<notin> set n" "0 < out_size"
  shows "path_basename (Some (p @ CHR ''/'' # n)) (Some out) out_size = Some (take (out_size - 1) n)"
proof -
  let ?path = "p @ CHR ''/'' # n"
  define blen where "blen = (if length n \<ge> out_size then out_size - 1 else length n)"
  have "path_basename (Some ?path) (Some out) out_size = Some (copy_from ?path (Suc (length p)) blen)"
    using assms(2) last_slash_loop_sep [OF assms(1), of p]
    by (simp add: path_basename_def Let_def blen_def del: last_slash_loop.simps)
  also have "copy_from ?path (Suc (length p)) blen = take blen (drop (Suc (length p)) ?path)"
    by (rule copy_from_eq) (auto simp: blen_def)
  also have "\<dots> = take (out_size - 1) n"
    using assms(2) by (simp add: blen_def)
  finally show ?thesis .
qed

lemma path_basename_no_sep:
  assumes "CHR ''/'' \<notin> set p" "0 < out_size"
  shows "path_basename (Some p) (Some out) out_size = Some (take (out_size - 1) p)"
proof (cases "p = []")
  case True
  with assms show ?thesis by (simp add: path_basename_def)
next
  case False
  define blen where "blen = (if length p \<ge> out_size then out_size - 1 else length p)"
  have "path_basename (Some p) (Some out) out_size = Some (copy_from p 0 blen)"
    using assms False last_slash_loop_none [of "length p" p]
    by (simp add: path_basename_def Let_def blen_def)
  also have "copy_from p 0 blen = take blen p"
    by (rule copy_from_0) (auto simp: blen_def)
  also have "\<dots> = take (out_size - 1) p"
    using assms(2) by (simp add: blen_def)
  finally show ?thesis .
qed

section \<open>Parent of a joined path\<close>

text \<open>
  C3, as the code has it.  For a non-empty prefix \<open>p\<close> and a name \<open>n\<close> without separator,
  the parent of the joined path is \<open>p\<close> provided \<open>p\<close> and the separator fit the buffer
  \<open>path_join\<close> writes to (\<open>length p + 2 \<le> out_size\<close>, so at most 30 characters for the
  32-byte buffers of the callers) and \<open>p\<close> fits the buffer \<open>path_parent\<close> writes to.
\<close>

theorem parent_of_join_when_prefix_fits:
  assumes "p \<noteq> []" "CHR ''/'' \<notin> set n"
    and "length p + 1 < join_size" "length p < parent_size"
  shows "path_parent (path_join (Some p) (Some n) (Some out1) join_size) (Some out2) parent_size
           = Some p"
proof -
  define n' where "n' = take (join_size - 1 - (length p + 1)) n"
  have "take (join_size - 1) (p @ CHR ''/'' # n) = p @ CHR ''/'' # n'"
    using assms(3) by (simp add: take_Cons' n'_def)
  then have "path_join (Some p) (Some n) (Some out1) join_size = Some (p @ CHR ''/'' # n')"
    using assms(1,3) by (simp add: path_join_dir)
  moreover have "CHR ''/'' \<notin> set n'"
    using assms(2) by (auto simp: n'_def dest: in_set_takeD)
  ultimately show ?thesis using assms(4) by (simp add: path_parent_sep)
qed

theorem parent_of_join_when_prefix_fits_witness:
  "''user'' \<noteq> [] \<and> CHR ''/'' \<notin> set ''notes'' \<and> length ''user'' + 1 < (32::nat) \<and>
   length ''user'' < (32::nat) \<and>
   path_join (Some ''user'') (Some ''notes'') (Some []) 32 = Some ''user/notes'' \<and>
   path_parent (path_join (Some ''user'') (Some ''notes'') (Some []) 32) (Some []) 32 = Some ''user''"
proof -
  have "path_parent (path_join (Some ''user'') (Some ''notes'') (Some []) 32) (Some []) 32 = Some ''user''"
    by (rule parent_of_join_when_prefix_fits) simp_all
  moreover have "path_join (Some ''user'') (Some ''notes'') (Some []) 32 = Some ''user/notes''"
    by (simp add: path_join_dir)
  ultimately show ?thesis by simp
qed

text \<open>
  With a prefix of 31 characters the 32-byte buffer has no room for the separator: the
  joined path is the prefix alone and its parent is the root, not the prefix.
\<close>

theorem parent_of_join_long_prefix_counterexample:
  "''aaaaaaaaaaaaaaaaaaaaaaaaaaaaaaa'' \<noteq> [] \<and> CHR ''/'' \<notin> set ''b'' \<and>
   path_join (Some ''aaaaaaaaaaaaaaaaaaaaaaaaaaaaaaa'') (Some ''b'') (Some []) 32
     = Some ''aaaaaaaaaaaaaaaaaaaaaaaaaaaaaaa'' \<and>
   path_parent (path_join (Some ''aaaaaaaaaaaaaaaaaaaaaaaaaaaaaaa'') (Some ''b'') (Some []) 32)
       (Some []) 32
     \<noteq> Some ''aaaaaaaaaaaaaaaaaaaaaaaaaaaaaaa''"
proof -
  have j: "path_join (Some ''aaaaaaaaaaaaaaaaaaaaaaaaaaaaaaa'') (Some ''b'') (Some []) 32
     = Some ''aaaaaaaaaaaaaaaaaaaaaaaaaaaaaaa''"
    by (simp add: path_join_dir)
  have "path_parent (Some ''aaaaaaaaaaaaaaaaaaaaaaaaaaaaaaa'') (Some []) 32 = Some []"
    by (rule path_parent_no_sep) simp_all
  with j show ?thesis by simp
qed

section \<open>Listing\<close>

lemma console_write_eq: "console_write s con = con @ s"
  by (induction s arbitrary: con) (simp_all add: console_putc_def)

lemma console_write_line_eq: "console_write_line s con = con @ s @ [CHR 0x0A]"
  by (simp add: console_write_line_def console_write_eq console_putc_def)

lemma k_streq_Some [simp]: "k_streq (Some a) (Some b) \<longleftrightarrow> a = b"
  by (simp add: k_streq_def)

lemma path_parent_is_Some:
  "0 < out_size \<Longrightarrow> \<exists>s. path_parent path (Some out) out_size = Some s"
  by (simp add: path_parent_def Let_def split: option.splits)

text \<open>The entries \<open>cli_cmd_sdir\<close> shows: used, and with the current directory as derived parent.\<close>

lemma sdir_loop_steps:
  "length tbl = ENIXNEL_MAX_FS_ENTRIES \<Longrightarrow> i + n = ENIXNEL_MAX_FS_ENTRIES \<Longrightarrow>
     sdir_loop tbl cur i st =
       (let shown = filter (\<lambda>e. used e \<noteq> 0 \<and>
                  path_parent (Some (name e)) (Some []) (ENIXNEL_MAX_NAME_LEN + 1) = Some cur)
                (drop i tbl)
        in (fst st \<or> shown \<noteq> [], snd st @ concat (map sdir_line shown)))"
proof (induction n arbitrary: i st)
  case 0
  then show ?case by (subst sdir_loop.simps) simp
next
  case (Suc n)
  let ?P = "\<lambda>e. used e \<noteq> 0 \<and>
      path_parent (Some (name e)) (Some []) (ENIXNEL_MAX_NAME_LEN + 1) = Some cur"
  from Suc.prems have inb: "i < ENIXNEL_MAX_FS_ENTRIES" and next_i: "(i + 1) + n = ENIXNEL_MAX_FS_ENTRIES"
    by simp_all
  note IH = Suc.IH [OF Suc.prems(1) next_i]
  from inb Suc.prems(1) have dr: "drop i tbl = tbl ! i # drop (i + 1) tbl"
    by (simp add: Cons_nth_drop_Suc)
  obtain s where s: "path_parent (Some (name (tbl ! i))) (Some []) (ENIXNEL_MAX_NAME_LEN + 1) = Some s"
    using path_parent_is_Some [of "ENIXNEL_MAX_NAME_LEN + 1"] by auto
  show ?case
  proof (cases "?P (tbl ! i)")
    case False
    then have f: "filter ?P (drop i tbl) = filter ?P (drop (i + 1) tbl)"
      by (simp add: dr)
    from False inb s have l: "sdir_loop tbl cur i st = sdir_loop tbl cur (i + 1) st"
      by (subst sdir_loop.simps) auto
    show ?thesis unfolding l f by (rule IH)
  next
    case True
    then have f: "filter ?P (drop i tbl) = tbl ! i # filter ?P (drop (i + 1) tbl)"
      by (simp add: dr)
    define con2 where "con2 = snd st @ sdir_line (tbl ! i)"
    have l: "sdir_loop tbl cur i st = sdir_loop tbl cur (i + 1) (True, con2)"
      using inb True
      by (subst sdir_loop.simps)
         (simp add: con2_def sdir_line_def console_write_eq console_write_line_eq)
    show ?thesis unfolding l f using IH [of "(True, con2)"] by (simp add: con2_def Let_def)
  qed
qed

lemma last_slash_loop_unfold:
  "last_slash_loop p n =
     (if n = 0 then 0 else if p ! (n - 1) \<noteq> CHR ''/'' then last_slash_loop p (n - 1) else n)"
  by (cases n) simp_all

lemma filter_used_tbl_of:
  "filter (\<lambda>e. used e \<noteq> 0 \<and> Q e) (tbl_of xs) = filter (\<lambda>e. used e \<noteq> 0 \<and> Q e) xs"
  by (simp add: tbl_of_def)

lemma listing_example_eq:
  "listing_example =
     tbl_of (boot_entries @ [file_entry ''user/a'', dir_entry ''user/b'', file_entry ''user/b/c''])"
  by (simp add: listing_example_def fs_init_layout_boot fs_create_tbl_of boot_entries_def)

text \<open>
  C4.  \<open>cli_cmd_sdir\<close> appends to the console, in slot order, one line for each used
  entry whose \<open>path_parent\<close> is the current directory, and for no other entry; the line
  is the kind tag followed by the \<open>path_basename\<close> of the entry.  When no entry qualifies
  it prints \<open>sdir: no entries\<close>.  With the current directory \<open>user\<close> and the entries
  \<open>user/a\<close> (file), \<open>user/b\<close> (directory) and \<open>user/b/c\<close> added to the boot layout, the
  output is the two lines for \<open>a\<close> and \<open>b\<close>.
\<close>

theorem sdir_lists_children_in_slot_order:
  "(length tbl = ENIXNEL_MAX_FS_ENTRIES \<longrightarrow>
      cli_cmd_sdir tbl cur con =
        (let shown = filter (\<lambda>e. used e \<noteq> 0 \<and>
                   path_parent (Some (name e)) (Some []) (ENIXNEL_MAX_NAME_LEN + 1) = Some cur) tbl
         in con @ (if shown = [] then ''sdir: no entries\<newline>''
                   else concat (map sdir_line shown)))) \<and>
   cli_cmd_sdir listing_example ''user'' con = con @ ''[FILE] a\<newline>[DIR]  b\<newline>''"
proof -
  have gen: "cli_cmd_sdir tbl cur con =
        (let shown = filter (\<lambda>e. used e \<noteq> 0 \<and>
                   path_parent (Some (name e)) (Some []) (ENIXNEL_MAX_NAME_LEN + 1) = Some cur) tbl
         in con @ (if shown = [] then ''sdir: no entries\<newline>''
                   else concat (map sdir_line shown)))"
    if len: "length tbl = ENIXNEL_MAX_FS_ENTRIES" for tbl cur
    using sdir_loop_steps [OF len, of 0 ENIXNEL_MAX_FS_ENTRIES cur "(False, con)"]
    by (simp add: cli_cmd_sdir_def Let_def console_write_line_eq)
  have len: "length listing_example = ENIXNEL_MAX_FS_ENTRIES"
    by (simp add: listing_example_eq boot_entries_def)
  have shown: "filter (\<lambda>e. used e \<noteq> 0 \<and>
        path_parent (Some (name e)) (Some []) (ENIXNEL_MAX_NAME_LEN + 1) = Some ''user'')
      listing_example = [file_entry ''user/a'', dir_entry ''user/b'']"
    unfolding listing_example_eq filter_used_tbl_of
    by (simp add: boot_entries_def path_parent_def last_slash_loop_unfold copy_from_0)
  have lines: "sdir_line (file_entry ''user/a'') = ''[FILE] a\<newline>''"
    "sdir_line (dir_entry ''user/b'') = ''[DIR]  b\<newline>''"
    by (simp_all add: sdir_line_def path_basename_def last_slash_loop_unfold copy_from_eq)
  from gen [OF len, of "''user''"] shown lines
  have "cli_cmd_sdir listing_example ''user'' con = con @ ''[FILE] a\<newline>[DIR]  b\<newline>''"
    by simp
  with gen show ?thesis by blast
qed

text \<open>In the boot layout the directory \<open>user\<close> has no children and the root has two.\<close>

theorem sdir_lists_children_in_slot_order_witness:
  "length (fs_init_layout fs_zero) = ENIXNEL_MAX_FS_ENTRIES \<and>
   cli_cmd_sdir (fs_init_layout fs_zero) ''user'' [] = ''sdir: no entries\<newline>'' \<and>
   cli_cmd_sdir (fs_init_layout fs_zero) [] [] = ''[DIR]  bin\<newline>[DIR]  user\<newline>'' \<and>
   cli_cmd_sdir listing_example ''user'' [] = ''[FILE] a\<newline>[DIR]  b\<newline>''"
proof -
  let ?t = "fs_init_layout fs_zero"
  have len: "length ?t = ENIXNEL_MAX_FS_ENTRIES"
    by (simp add: fs_init_layout_boot boot_entries_def)
  have user: "filter (\<lambda>e. used e \<noteq> 0 \<and>
        path_parent (Some (name e)) (Some []) (ENIXNEL_MAX_NAME_LEN + 1) = Some ''user'') ?t = []"
    unfolding fs_init_layout_boot filter_used_tbl_of
    by (simp add: boot_entries_def path_parent_def last_slash_loop_unfold copy_from_0)
  have root: "filter (\<lambda>e. used e \<noteq> 0 \<and>
        path_parent (Some (name e)) (Some []) (ENIXNEL_MAX_NAME_LEN + 1) = Some []) ?t
      = [dir_entry ''bin'', dir_entry ''user'']"
    unfolding fs_init_layout_boot filter_used_tbl_of
    by (simp add: boot_entries_def path_parent_def last_slash_loop_unfold copy_from_0)
  have lines: "sdir_line (dir_entry ''bin'') = ''[DIR]  bin\<newline>''"
    "sdir_line (dir_entry ''user'') = ''[DIR]  user\<newline>''"
    by (simp_all add: sdir_line_def path_basename_def last_slash_loop_unfold copy_from_eq)
  from sdir_lists_children_in_slot_order [of ?t "''user''" "[]"] len user
  have a: "cli_cmd_sdir ?t ''user'' [] = ''sdir: no entries\<newline>''" by simp
  from sdir_lists_children_in_slot_order [of ?t "[]" "[]"] len root lines
  have b: "cli_cmd_sdir ?t [] [] = ''[DIR]  bin\<newline>[DIR]  user\<newline>''" by simp
  from sdir_lists_children_in_slot_order [of ?t "[]" "[]"]
  have c: "cli_cmd_sdir listing_example ''user'' [] = ''[FILE] a\<newline>[DIR]  b\<newline>''" by simp
  from len a b c show ?thesis by simp
qed

section \<open>Changing directory\<close>

lemma path_join_fits:
  "path_join (Some cur) (Some nm) (Some out) (ENIXNEL_MAX_NAME_LEN + 1) = Some tg \<Longrightarrow>
     length tg \<le> ENIXNEL_MAX_NAME_LEN"
  by (cases "cur = []") (auto simp: path_join_root path_join_dir)

lemma path_join_is_Some:
  "\<exists>tg. path_join (Some cur) (Some nm) (Some out) (ENIXNEL_MAX_NAME_LEN + 1) = Some tg"
  by (cases "cur = []") (auto simp: path_join_root path_join_dir)

lemma copy_bounded_fits: "length s \<le> limit \<Longrightarrow> copy_bounded s [] limit = s"
  by (simp add: copy_bounded_eq)

text \<open>
  C5, for a name that was given.  Let \<open>nm\<close> be the first token of the argument string,
  not empty and neither \<open>.\<close> nor \<open>..\<close>, and \<open>target\<close> the result of \<open>path_join\<close> on the
  current directory and \<open>nm\<close>.  On a table of 128 slots with unique names (every
  reachable table is one), \<open>cli_cmd_cd\<close> makes \<open>target\<close> the current directory and prints
  nothing if some used slot stores exactly \<open>target\<close> and is a directory; otherwise it
  prints \<open>cd: no such directory\<close> and leaves the current directory as it was.
\<close>

theorem cd_enters_existing_directory_only:
  assumes "length tbl = ENIXNEL_MAX_FS_ENTRIES" "names_unique tbl"
    and "nm = cli_first_arg args (ENIXNEL_MAX_NAME_LEN + 1)"
    and "nm \<noteq> []" "nm \<noteq> ''.''" "nm \<noteq> ''..''"
    and "target = path_join (Some cur) (Some nm) (Some []) (ENIXNEL_MAX_NAME_LEN + 1)"
  shows "if (\<exists>i < ENIXNEL_MAX_FS_ENTRIES.
               used (tbl ! i) \<noteq> 0 \<and> Some (name (tbl ! i)) = target \<and> is_dir (tbl ! i) \<noteq> 0)
         then cli_cmd_cd tbl cur con args = (chars target, con)
         else cli_cmd_cd tbl cur con args =
                (cur, con @ ''cd: no such directory: '' @ nm @ ''\<newline>'')"
proof -
  from path_join_is_Some [of cur nm "[]"] assms(7) obtain tg where tg: "target = Some tg" by auto
  with assms(7) have "path_join (Some cur) (Some nm) (Some []) (ENIXNEL_MAX_NAME_LEN + 1) = Some tg"
    by simp
  then have "length tg \<le> ENIXNEL_MAX_NAME_LEN" by (rule path_join_fits)
  then have copy: "copy_bounded tg [] ENIXNEL_MAX_NAME_LEN = tg" by (rule copy_bounded_fits)
  have cd: "cli_cmd_cd tbl cur con args =
      (case fs_find_index tbl (Some tg) of
         None \<Rightarrow> (cur, con @ ''cd: no such directory: '' @ nm @ ''\<newline>'')
       | Some idx \<Rightarrow>
           if used (tbl ! idx) = 0 \<or> is_dir (tbl ! idx) = 0
           then (cur, con @ ''cd: no such directory: '' @ nm @ ''\<newline>'')
           else (tg, con))"
    using assms(3,4,5,6) assms(7) [symmetric] tg copy
    by (simp add: cli_cmd_cd_def Let_def console_write_eq console_write_line_eq
          split: option.splits)
  show ?thesis
  proof (cases "\<exists>i < ENIXNEL_MAX_FS_ENTRIES.
               used (tbl ! i) \<noteq> 0 \<and> Some (name (tbl ! i)) = target \<and> is_dir (tbl ! i) \<noteq> 0")
    case True
    then obtain i where i: "i < ENIXNEL_MAX_FS_ENTRIES" "used (tbl ! i) \<noteq> 0"
      "name (tbl ! i) = tg" "is_dir (tbl ! i) \<noteq> 0"
      using tg by auto
    then have "holds_name tbl tg i" by (simp add: holds_name_def)
    from fs_find_from_exists [of 0 i tbl tg, OF _ i(1) this] obtain k where
      k: "fs_find_index tbl (Some tg) = Some k" by (auto simp: fs_find_index_def)
    from fs_find_index_Some [OF k] have "k < ENIXNEL_MAX_FS_ENTRIES" "holds_name tbl tg k" by auto
    with i assms(2) have "k = i" by (auto simp: names_unique_def holds_name_def)
    with k i cd True tg show ?thesis by simp
  next
    case False
    show ?thesis
    proof (cases "fs_find_index tbl (Some tg)")
      case None
      with cd False show ?thesis by simp
    next
      case (Some k)
      from fs_find_index_Some [OF Some] have "k < ENIXNEL_MAX_FS_ENTRIES" "holds_name tbl tg k" by auto
      with False tg have "is_dir (tbl ! k) = 0" by (auto simp: holds_name_def)
      with cd Some False show ?thesis by simp
    qed
  qed
qed

lemma ex_slot_tbl_of:
  assumes "length xs \<le> ENIXNEL_MAX_FS_ENTRIES"
  shows "(\<exists>i < ENIXNEL_MAX_FS_ENTRIES. used (tbl_of xs ! i) \<noteq> 0 \<and> Q (tbl_of xs ! i))
           \<longleftrightarrow> (\<exists>e \<in> set xs. used e \<noteq> 0 \<and> Q e)"
proof
  assume "\<exists>i < ENIXNEL_MAX_FS_ENTRIES. used (tbl_of xs ! i) \<noteq> 0 \<and> Q (tbl_of xs ! i)"
  then obtain i where i: "i < ENIXNEL_MAX_FS_ENTRIES" "used (tbl_of xs ! i) \<noteq> 0" "Q (tbl_of xs ! i)"
    by blast
  then have "i < length xs" by (auto simp: nth_tbl_of split: if_splits)
  with i show "\<exists>e \<in> set xs. used e \<noteq> 0 \<and> Q e" by (auto simp: nth_tbl_of)
next
  assume "\<exists>e \<in> set xs. used e \<noteq> 0 \<and> Q e"
  then obtain i where i: "i < length xs" "used (xs ! i) \<noteq> 0" "Q (xs ! i)"
    by (auto simp: in_set_conv_nth)
  with assms have "i < ENIXNEL_MAX_FS_ENTRIES" by arith
  with i show "\<exists>i < ENIXNEL_MAX_FS_ENTRIES. used (tbl_of xs ! i) \<noteq> 0 \<and> Q (tbl_of xs ! i)"
    by (auto simp: nth_tbl_of intro!: exI [of _ i])
qed

text \<open>
  In the boot layout, \<open>cd user\<close> at the root enters the directory \<open>user\<close>, and \<open>cd echo\<close>
  in \<open>bin\<close> fails because \<open>bin/echo\<close> is a file.
\<close>

theorem cd_enters_existing_directory_only_witness:
  "length (fs_init_layout fs_zero) = ENIXNEL_MAX_FS_ENTRIES \<and> names_unique (fs_init_layout fs_zero) \<and>
   cli_first_arg ''user'' (ENIXNEL_MAX_NAME_LEN + 1) = ''user'' \<and>
   cli_cmd_cd (fs_init_layout fs_zero) [] [] ''user'' = (''user'', []) \<and>
   cli_first_arg ''echo'' (ENIXNEL_MAX_NAME_LEN + 1) = ''echo'' \<and>
   cli_cmd_cd (fs_init_layout fs_zero) ''bin'' [] ''echo'' =
     (''bin'', ''cd: no such directory: echo\<newline>'')"
proof -
  let ?t = "fs_init_layout fs_zero"
  note inv = fs_init_layout_inv
  have arg1: "cli_first_arg ''user'' (ENIXNEL_MAX_NAME_LEN + 1) = ''user''"
    and arg2: "cli_first_arg ''echo'' (ENIXNEL_MAX_NAME_LEN + 1) = ''echo''"
    by (simp_all add: cli_first_arg_def)
  have j1: "path_join (Some []) (Some ''user'') (Some []) (ENIXNEL_MAX_NAME_LEN + 1) = Some ''user''"
    by (simp add: path_join_root)
  have j2: "path_join (Some ''bin'') (Some ''echo'') (Some []) (ENIXNEL_MAX_NAME_LEN + 1) = Some ''bin/echo''"
    by (simp add: path_join_dir)
  have e1: "\<exists>i < ENIXNEL_MAX_FS_ENTRIES.
      used (?t ! i) \<noteq> 0 \<and> Some (name (?t ! i)) = Some ''user'' \<and> is_dir (?t ! i) \<noteq> 0"
    unfolding fs_init_layout_boot
    by (subst ex_slot_tbl_of) (simp_all add: boot_entries_def)
  have e2: "\<not> (\<exists>i < ENIXNEL_MAX_FS_ENTRIES.
      used (?t ! i) \<noteq> 0 \<and> Some (name (?t ! i)) = Some ''bin/echo'' \<and> is_dir (?t ! i) \<noteq> 0)"
    unfolding fs_init_layout_boot
    by (subst ex_slot_tbl_of) (simp_all add: boot_entries_def)
  have "cli_cmd_cd ?t [] [] ''user'' = (''user'', [])"
    using cd_enters_existing_directory_only
      [of ?t "''user''" "''user''" "Some ''user''" "[]" "[]"] inv arg1 j1 e1
    by simp
  moreover have "cli_cmd_cd ?t ''bin'' [] ''echo'' = (''bin'', ''cd: no such directory: echo\<newline>'')"
    using cd_enters_existing_directory_only
      [of ?t "''echo''" "''echo''" "Some ''bin/echo''" "''bin''" "[]"] inv arg2 j2 e2
    by simp
  ultimately show ?thesis using inv arg1 arg2 by simp
qed

lemma trailing_slash_example_eq:
  "trailing_slash_example = tbl_of (boot_entries @ [dir_entry ''user/''])"
  by (simp add: trailing_slash_example_def fs_init_layout_boot fs_create_tbl_of boot_entries_def)

text \<open>
  Without an argument the name is empty and the command stops at \<open>cd: missing name\<close>,
  although the directory \<open>user/\<close>, which is what \<open>path_join\<close> gives for the current
  directory \<open>user\<close> and the empty name, exists in slot 12.
\<close>

theorem cd_empty_name_counterexample:
  "trailing_slash_example \<in> reachable \<and>
   cli_first_arg [] (ENIXNEL_MAX_NAME_LEN + 1) = [] \<and>
   path_join (Some ''user'') (Some []) (Some []) (ENIXNEL_MAX_NAME_LEN + 1) = Some ''user/'' \<and>
   used (trailing_slash_example ! 12) \<noteq> 0 \<and> is_dir (trailing_slash_example ! 12) \<noteq> 0 \<and>
   name (trailing_slash_example ! 12) = ''user/'' \<and>
   cli_cmd_cd trailing_slash_example ''user'' [] [] = (''user'', ''cd: missing name\<newline>'')"
proof -
  have "trailing_slash_example \<in> reachable"
    unfolding trailing_slash_example_def by (intro reachable.create_dir reachable.init)
  moreover have "trailing_slash_example ! 12 = dir_entry ''user/''"
    by (simp add: trailing_slash_example_eq nth_tbl_of boot_entries_def)
  moreover have "path_join (Some ''user'') (Some []) (Some []) (ENIXNEL_MAX_NAME_LEN + 1) = Some ''user/''"
    by (simp add: path_join_dir)
  moreover have "cli_cmd_cd trailing_slash_example ''user'' [] [] = (''user'', ''cd: missing name\<newline>'')"
    by (simp add: cli_cmd_cd_def cli_first_arg_def console_write_line_eq)
  ultimately show ?thesis by (simp add: cli_first_arg_def)
qed

section \<open>What a write stores\<close>

lemma length_copy_data [simp]: "length (copy_data dst offset src n) = length dst"
  by (induction n) simp_all

lemma copy_data_eq:
  "offset + n \<le> length dst \<Longrightarrow> n \<le> length src \<Longrightarrow>
     copy_data dst offset src n = take offset dst @ take n src @ drop (offset + n) dst"
proof (induction n)
  case 0
  show ?case by simp
next
  case (Suc n)
  let ?pre = "take offset dst @ take n src"
  from Suc.prems have len: "length ?pre = offset + n" by simp
  from Suc.prems have "drop (offset + n) dst = dst ! (offset + n) # drop (offset + Suc n) dst"
    by (simp add: Cons_nth_drop_Suc)
  with Suc have "copy_data dst offset src n = ?pre @ dst ! (offset + n) # drop (offset + Suc n) dst"
    by simp
  then have "copy_data dst offset src (Suc n) =
      (?pre @ dst ! (offset + n) # drop (offset + Suc n) dst)[length ?pre := src ! n]"
    using len by simp
  also have "\<dots> = ?pre @ src ! n # drop (offset + Suc n) dst"
    by (rule list_update_length)
  also have "\<dots> = take offset dst @ take (Suc n) src @ drop (offset + Suc n) dst"
    using Suc.prems by (simp add: take_Suc_conv_app_nth)
  finally show ?case .
qed

text \<open>
  The slot after \<open>fs_write_at\<close>: \<open>n\<close> of the \<open>len\<close> bytes fit after \<open>offset\<close>; the
  terminator goes to \<open>data[offset + n]\<close>, or to \<open>data[511]\<close> when the data array is full.
\<close>

lemma fs_write_at_stores:
  assumes "length (data (tbl ! idx)) = ENIXNEL_MAX_FILE_SIZE" "len \<le> length src"
    and "offset = (if append_f \<noteq> 0 then unat (size_e (tbl ! idx)) else 0)"
    and "offset < ENIXNEL_MAX_FILE_SIZE"
    and "n = min len (ENIXNEL_MAX_FILE_SIZE - offset)"
  shows "fs_write_at tbl idx src len append_f =
    (tbl[idx := (tbl ! idx)\<lparr>size_e := of_nat (offset + n),
        data := (take offset (data (tbl ! idx)) @ take n src @ drop (offset + n) (data (tbl ! idx)))
                  [(if offset + n < ENIXNEL_MAX_FILE_SIZE then offset + n
                    else ENIXNEL_MAX_FILE_SIZE - 1) := NUL]\<rparr>], 0)"
proof -
  have off: "(if append_f \<noteq> 0 then unat (size_e (tbl ! idx)) else 0) = offset"
    using assms(3) by simp
  have n: "(if len > ENIXNEL_MAX_FILE_SIZE - offset then ENIXNEL_MAX_FILE_SIZE - offset else len) = n"
    using assms(5) by (simp add: min_def)
  have cd: "copy_data (data (tbl ! idx)) offset src n =
      take offset (data (tbl ! idx)) @ take n src @ drop (offset + n) (data (tbl ! idx))"
    using assms(1,2,4,5) by (intro copy_data_eq) auto
  have fits: "\<not> ENIXNEL_MAX_FILE_SIZE \<le> offset" using assms(4) by simp
  show ?thesis
    unfolding fs_write_at_def Let_def off n cd if_not_P [OF fits]
    by (cases "offset + n < ENIXNEL_MAX_FILE_SIZE") simp_all
qed

lemma fs_write_file_existing:
  "fs_find_index tbl (Some nm) = Some idx \<Longrightarrow> is_dir (tbl ! idx) = 0 \<Longrightarrow>
     fs_write_file tbl (Some nm) (Some d) len append_f = fs_write_at tbl idx d len append_f"
  by (simp add: fs_write_file_def)

lemma fs_write_file_new:
  "fs_find_index tbl (Some nm) = None \<Longrightarrow> fs_alloc_entry tbl (Some nm) 0 = (tbl1, Some idx) \<Longrightarrow>
     fs_write_file tbl (Some nm) (Some d) len append_f =
       fs_write_at (tbl1[idx := (tbl1 ! idx)\<lparr>size_e := 0, data := (data (tbl1 ! idx))[0 := NUL]\<rparr>])
         idx d len append_f"
  by (simp add: fs_write_file_def Let_def)

text \<open>Writing to a name that is not in a table given by its leading slots.\<close>

lemma fs_write_file_new_tbl_of:
  assumes "length xs < ENIXNEL_MAX_FS_ENTRIES"
    and "\<forall>e \<in> set xs. used e \<noteq> 0 \<and> name e \<noteq> nm"
    and "0 < length nm" "length nm \<le> ENIXNEL_MAX_NAME_LEN"
  shows "fs_write_file (tbl_of xs) (Some nm) (Some d) len append_f =
           fs_write_at (tbl_of (xs @ [file_entry nm])) (length xs) d len append_f"
proof -
  have absent: "fs_find_index (tbl_of xs) (Some nm) = None"
    using assms(2) by (intro fs_find_index_tbl_of_absent) simp
  have alloc: "fs_alloc_entry (tbl_of xs) (Some nm) 0 =
      (tbl_of (xs @ [file_entry nm]), Some (length xs))"
    using fs_alloc_entry_tbl_of [OF assms, of 0] by (simp add: alloc_fill_zero)
  have slot: "tbl_of (xs @ [file_entry nm]) ! length xs = file_entry nm"
    using assms(1) by (simp add: nth_tbl_of)
  have fresh: "(file_entry nm)\<lparr>size_e := 0, data := (data (file_entry nm))[0 := NUL]\<rparr> = file_entry nm"
    by (simp add: file_entry_def zero_entry_def list_update_same_conv)
  have "(tbl_of (xs @ [file_entry nm]))
      [length xs := (tbl_of (xs @ [file_entry nm]) ! length xs)
          \<lparr>size_e := 0, data := (data (tbl_of (xs @ [file_entry nm]) ! length xs))[0 := NUL]\<rparr>]
      = tbl_of (xs @ [file_entry nm])"
    unfolding slot fresh
    using list_update_id [of "tbl_of (xs @ [file_entry nm])" "length xs"] by (simp only: slot)
  with fs_write_file_new [OF absent alloc, of d len append_f] show ?thesis by simp
qed

lemma tbl_of_update_last:
  "length xs < ENIXNEL_MAX_FS_ENTRIES \<Longrightarrow>
     (tbl_of (xs @ [e]))[length xs := e'] = tbl_of (xs @ [e'])"
  using tbl_of_update [of "length xs" "xs @ [e]" e'] by simp

lemma nth_tbl_of_last:
  "length xs < ENIXNEL_MAX_FS_ENTRIES \<Longrightarrow> tbl_of (xs @ [e]) ! length xs = e"
  by (simp add: nth_tbl_of)

lemma fs_find_index_last:
  assumes "length xs < ENIXNEL_MAX_FS_ENTRIES" "used e \<noteq> 0" "\<forall>x \<in> set xs. name x \<noteq> name e"
  shows "fs_find_index (tbl_of (xs @ [e])) (Some (name e)) = Some (length xs)"
  using assms by (intro fs_find_index_tbl_of) simp_all

text \<open>A write to the file in the last leading slot, and a read of it.\<close>

lemma fs_write_file_last:
  assumes "length xs < ENIXNEL_MAX_FS_ENTRIES" "used e \<noteq> 0" "is_dir e = 0"
    and "\<forall>x \<in> set xs. name x \<noteq> name e"
    and "length (data e) = ENIXNEL_MAX_FILE_SIZE" "len \<le> length d"
    and "offset = (if append_f \<noteq> 0 then unat (size_e e) else 0)"
    and "offset < ENIXNEL_MAX_FILE_SIZE"
    and "n = min len (ENIXNEL_MAX_FILE_SIZE - offset)"
  shows "fs_write_file (tbl_of (xs @ [e])) (Some (name e)) (Some d) len append_f =
    (tbl_of (xs @ [e\<lparr>size_e := of_nat (offset + n),
        data := (take offset (data e) @ take n d @ drop (offset + n) (data e))
                  [(if offset + n < ENIXNEL_MAX_FILE_SIZE then offset + n
                    else ENIXNEL_MAX_FILE_SIZE - 1) := NUL]\<rparr>]), 0)"
proof -
  let ?t = "tbl_of (xs @ [e])"
  have slot: "?t ! length xs = e" using assms(1) by (rule nth_tbl_of_last)
  have "fs_write_file ?t (Some (name e)) (Some d) len append_f =
      fs_write_at ?t (length xs) d len append_f"
    using fs_find_index_last [OF assms(1,2,4)] assms(3) slot
    by (intro fs_write_file_existing) simp_all
  also have "\<dots> = (?t[length xs := (?t ! length xs)\<lparr>size_e := of_nat (offset + n),
        data := (take offset (data (?t ! length xs)) @ take n d @
                 drop (offset + n) (data (?t ! length xs)))
                  [(if offset + n < ENIXNEL_MAX_FILE_SIZE then offset + n
                    else ENIXNEL_MAX_FILE_SIZE - 1) := NUL]\<rparr>], 0)"
    using assms(5-9) by (intro fs_write_at_stores) (simp_all add: slot)
  finally show ?thesis using assms(1) by (simp add: slot tbl_of_update_last)
qed

lemma fs_read_file_last:
  assumes "length xs < ENIXNEL_MAX_FS_ENTRIES" "used e \<noteq> 0" "is_dir e = 0"
    and "\<forall>x \<in> set xs. name x \<noteq> name e"
  shows "fs_read_file (tbl_of (xs @ [e])) (Some (name e)) = Some (data e, unat (size_e e))"
  using fs_find_index_last [OF assms(1,2,4)] assms(1,3)
  by (simp add: fs_read_file_def nth_tbl_of_last)

lemma fs_write_file_fresh:
  assumes "length xs < ENIXNEL_MAX_FS_ENTRIES"
    and "\<forall>e \<in> set xs. used e \<noteq> 0 \<and> name e \<noteq> nm"
    and "0 < length nm" "length nm \<le> ENIXNEL_MAX_NAME_LEN"
    and "len \<le> length d" "n = min len ENIXNEL_MAX_FILE_SIZE"
  shows "fs_write_file (tbl_of xs) (Some nm) (Some d) len append_f =
    (tbl_of (xs @ [(file_entry nm)\<lparr>size_e := of_nat n,
        data := (take n d @ replicate (ENIXNEL_MAX_FILE_SIZE - n) NUL)
                  [(if n < ENIXNEL_MAX_FILE_SIZE then n else ENIXNEL_MAX_FILE_SIZE - 1) := NUL]\<rparr>]), 0)"
proof -
  let ?t = "tbl_of (xs @ [file_entry nm])"
  have slot: "?t ! length xs = file_entry nm" using assms(1) by (rule nth_tbl_of_last)
  have "fs_write_file (tbl_of xs) (Some nm) (Some d) len append_f =
      fs_write_at ?t (length xs) d len append_f"
    using assms(1-4) by (rule fs_write_file_new_tbl_of)
  also have "\<dots> = (?t[length xs := (?t ! length xs)\<lparr>size_e := of_nat (0 + n),
        data := (take 0 (data (?t ! length xs)) @ take n d @
                 drop (0 + n) (data (?t ! length xs)))
                  [(if 0 + n < ENIXNEL_MAX_FILE_SIZE then 0 + n
                    else ENIXNEL_MAX_FILE_SIZE - 1) := NUL]\<rparr>], 0)"
    using assms(5,6) by (intro fs_write_at_stores) (simp_all add: slot)
  finally show ?thesis using assms(1) by (simp add: slot tbl_of_update_last)
qed

lemma replicate_update_last: "(replicate (Suc n) c)[n := y] = replicate n c @ [y]"
proof -
  have "(replicate n c @ [c])[length (replicate n c) := y] = replicate n c @ [y]"
    by (rule list_update_length)
  then show ?thesis by (simp add: replicate_append_same)
qed

lemma boot_entries_fresh:
  "length boot_entries = 12" "\<forall>e \<in> set boot_entries. used e \<noteq> 0 \<and> name e \<noteq> ''user/f''"
  by (simp_all add: boot_entries_def)

section \<open>Writes that reach the capacity\<close>

text \<open>
  C1 at the capacity.  Writing 512 bytes \<open>x\<close> to the new name \<open>user/f\<close> in the boot layout
  succeeds and a read then reports 512 bytes, but the last of them is NUL, not \<open>x\<close>:
  the terminator is stored at \<open>data[511]\<close>, over the last byte copied.
\<close>

theorem write_512_bytes_last_byte_is_nul:
  "snd (fs_write_file (fs_init_layout fs_zero) (Some ''user/f'')
          (Some (replicate 512 (CHR ''x''))) 512 0) = 0 \<and>
   fs_read_file
     (fst (fs_write_file (fs_init_layout fs_zero) (Some ''user/f'')
             (Some (replicate 512 (CHR ''x''))) 512 0))
     (Some ''user/f'')
   = Some (replicate 511 (CHR ''x'') @ [NUL], 512)"
proof -
  define e where
    "e = (file_entry ''user/f'')\<lparr>size_e := 512, data := replicate 511 (CHR ''x'') @ [NUL]\<rparr>"
  have upd: "(replicate 512 (CHR ''x''))[511 := NUL] = replicate 511 (CHR ''x'') @ [NUL]"
    using replicate_update_last [of 511 "CHR ''x''" NUL] by simp
  have w: "fs_write_file (fs_init_layout fs_zero) (Some ''user/f'')
        (Some (replicate 512 (CHR ''x''))) 512 0 = (tbl_of (boot_entries @ [e]), 0)"
    unfolding fs_init_layout_boot
    using fs_write_file_fresh [of boot_entries "''user/f''" 512 "replicate 512 (CHR ''x'')" 512 0]
      boot_entries_fresh
    by (simp add: e_def upd)
  have r: "fs_read_file (tbl_of (boot_entries @ [e])) (Some (name e)) = Some (data e, unat (size_e e))"
    using boot_entries_fresh by (intro fs_read_file_last) (simp_all add: e_def)
  from w r show ?thesis by (simp add: e_def)
qed

text \<open>
  C6 at the capacity.  Appending 300 bytes \<open>a\<close> and then 300 bytes \<open>b\<close> to the new file
  \<open>user/f\<close> leaves 512 bytes of which the last is NUL (300 \<open>a\<close>, 211 \<open>b\<close>, NUL), not the
  first 512 bytes of the concatenation; overwriting it with 512 bytes \<open>c\<close> leaves 511
  \<open>c\<close> and NUL.
\<close>

theorem append_to_capacity_last_byte_is_nul:
  "(let t1 = fst (fs_write_file (fs_init_layout fs_zero) (Some ''user/f'')
                    (Some (replicate 300 (CHR ''a''))) 300 1);
        t2 = fst (fs_write_file t1 (Some ''user/f'') (Some (replicate 300 (CHR ''b''))) 300 1);
        t3 = fst (fs_write_file t2 (Some ''user/f'') (Some (replicate 512 (CHR ''c''))) 512 0)
    in fs_read_file t1 (Some ''user/f'')
         = Some (replicate 300 (CHR ''a'') @ replicate 212 NUL, 300) \<and>
       fs_read_file t2 (Some ''user/f'')
         = Some (replicate 300 (CHR ''a'') @ replicate 211 (CHR ''b'') @ [NUL], 512) \<and>
       fs_read_file t3 (Some ''user/f'')
         = Some (replicate 511 (CHR ''c'') @ [NUL], 512))"
proof -
  define e1 where
    "e1 = (file_entry ''user/f'')\<lparr>size_e := 300, data := replicate 300 (CHR ''a'') @ replicate 212 NUL\<rparr>"
  define e2 where
    "e2 = (file_entry ''user/f'')\<lparr>size_e := 512,
            data := replicate 300 (CHR ''a'') @ replicate 211 (CHR ''b'') @ [NUL]\<rparr>"
  define e3 where
    "e3 = (file_entry ''user/f'')\<lparr>size_e := 512, data := replicate 511 (CHR ''c'') @ [NUL]\<rparr>"
  have sel1: "used e1 = 1" "is_dir e1 = 0" "name e1 = ''user/f''" "unat (size_e e1) = 300"
    "data e1 = replicate 300 (CHR ''a'') @ replicate 212 NUL"
    by (simp_all add: e1_def)
  have sel2: "used e2 = 1" "is_dir e2 = 0" "name e2 = ''user/f''" "unat (size_e e2) = 512"
    "data e2 = replicate 300 (CHR ''a'') @ replicate 211 (CHR ''b'') @ [NUL]"
    by (simp_all add: e2_def)
  have sel3: "used e3 = 1" "is_dir e3 = 0" "name e3 = ''user/f''" "unat (size_e e3) = 512"
    "data e3 = replicate 511 (CHR ''c'') @ [NUL]"
    by (simp_all add: e3_def)
  have updz: "(replicate 212 NUL)[0 := NUL] = replicate 212 NUL"
    by (simp add: list_update_same_conv)
  have updb: "(replicate 212 (CHR ''b''))[211 := NUL] = replicate 211 (CHR ''b'') @ [NUL]"
    using replicate_update_last [of 211 "CHR ''b''" NUL] by simp
  have updc: "(replicate 512 (CHR ''c''))[511 := NUL] = replicate 511 (CHR ''c'') @ [NUL]"
    using replicate_update_last [of 511 "CHR ''c''" NUL] by simp
  have ent1: "(file_entry ''user/f'')\<lparr>size_e := of_nat 300,
        data := (take 300 (replicate 300 (CHR ''a'')) @ replicate (ENIXNEL_MAX_FILE_SIZE - 300) NUL)
                  [(if (300::nat) < ENIXNEL_MAX_FILE_SIZE then 300 else ENIXNEL_MAX_FILE_SIZE - 1) := NUL]\<rparr>
      = e1"
    by (simp add: e1_def list_update_append updz)
  have ent2: "e1\<lparr>size_e := of_nat (300 + 212),
        data := (take 300 (data e1) @ take 212 (replicate 300 (CHR ''b'')) @ drop (300 + 212) (data e1))
                  [(if (300::nat) + 212 < ENIXNEL_MAX_FILE_SIZE then 300 + 212
                    else ENIXNEL_MAX_FILE_SIZE - 1) := NUL]\<rparr>
      = e2"
    by (simp add: e1_def e2_def list_update_append updb)
  have ent3: "e2\<lparr>size_e := of_nat (0 + 512),
        data := (take 0 (data e2) @ take 512 (replicate 512 (CHR ''c'')) @ drop (0 + 512) (data e2))
                  [(if (0::nat) + 512 < ENIXNEL_MAX_FILE_SIZE then 0 + 512
                    else ENIXNEL_MAX_FILE_SIZE - 1) := NUL]\<rparr>
      = e3"
    by (simp add: e2_def e3_def updc)
  have w1: "fs_write_file (fs_init_layout fs_zero) (Some ''user/f'')
        (Some (replicate 300 (CHR ''a''))) 300 1 = (tbl_of (boot_entries @ [e1]), 0)"
    unfolding fs_init_layout_boot ent1 [symmetric]
    using boot_entries_fresh by (intro fs_write_file_fresh) simp_all
  have w2: "fs_write_file (tbl_of (boot_entries @ [e1])) (Some (name e1))
        (Some (replicate 300 (CHR ''b''))) 300 1 = (tbl_of (boot_entries @ [e2]), 0)"
    unfolding ent2 [symmetric]
    using boot_entries_fresh by (intro fs_write_file_last) (simp_all add: sel1)
  have w3: "fs_write_file (tbl_of (boot_entries @ [e2])) (Some (name e2))
        (Some (replicate 512 (CHR ''c''))) 512 0 = (tbl_of (boot_entries @ [e3]), 0)"
    unfolding ent3 [symmetric]
    using boot_entries_fresh by (intro fs_write_file_last) (simp_all add: sel2)
  have r1: "fs_read_file (tbl_of (boot_entries @ [e1])) (Some (name e1)) = Some (data e1, unat (size_e e1))"
    using boot_entries_fresh by (intro fs_read_file_last) (simp_all add: sel1)
  have r2: "fs_read_file (tbl_of (boot_entries @ [e2])) (Some (name e2)) = Some (data e2, unat (size_e e2))"
    using boot_entries_fresh by (intro fs_read_file_last) (simp_all add: sel2)
  have r3: "fs_read_file (tbl_of (boot_entries @ [e3])) (Some (name e3)) = Some (data e3, unat (size_e e3))"
    using boot_entries_fresh by (intro fs_read_file_last) (simp_all add: sel3)
  from w1 w2 w3 r1 r2 r3 show ?thesis by (simp add: sel1 sel2 sel3)
qed

section \<open>Writes that stay below the capacity\<close>

lemma unat_size_small: "n \<le> ENIXNEL_MAX_FILE_SIZE \<Longrightarrow> unat (of_nat n :: 32 word) = n"
  by (simp add: unat_of_nat)

lemma fs_find_index_cong:
  assumes "\<And>j. j < ENIXNEL_MAX_FS_ENTRIES \<Longrightarrow> holds_name t2 nm j = holds_name t1 nm j"
  shows "fs_find_index t2 (Some nm) = fs_find_index t1 (Some nm)"
proof (cases "fs_find_index t1 (Some nm)")
  case None
  then have "\<forall>j < ENIXNEL_MAX_FS_ENTRIES. \<not> holds_name t2 nm j"
    using assms by (simp add: fs_find_index_None_iff)
  then have "fs_find_index t2 (Some nm) = None" by (simp add: fs_find_index_None_iff)
  with None show ?thesis by simp
next
  case (Some k)
  from fs_find_index_Some [OF Some] have
    k: "k < ENIXNEL_MAX_FS_ENTRIES" "holds_name t1 nm k" "\<forall>j < k. \<not> holds_name t1 nm j" by auto
  have "fs_find_index t2 (Some nm) = Some k"
  proof (rule fs_find_index_first)
    show "k < ENIXNEL_MAX_FS_ENTRIES" by (rule k(1))
    show "holds_name t2 nm k" using assms k(1,2) by simp
    fix j assume "j < k"
    with k(1) have "j < ENIXNEL_MAX_FS_ENTRIES" by arith
    with assms k(3) \<open>j < k\<close> show "\<not> holds_name t2 nm j" by simp
  qed
  with Some show ?thesis by simp
qed

text \<open>
  A write to an existing file that ends below the capacity: the content afterwards is
  the first \<open>offset\<close> bytes of the old data followed by the bytes written.
\<close>

lemma write_existing_below_capacity:
  assumes "length tbl = ENIXNEL_MAX_FS_ENTRIES"
    and "fs_find_index tbl (Some nm) = Some idx" "is_dir (tbl ! idx) = 0"
    and "length (data (tbl ! idx)) = ENIXNEL_MAX_FILE_SIZE" "len \<le> length d"
    and "offset = (if append_f \<noteq> 0 then unat (size_e (tbl ! idx)) else 0)"
    and "offset + len < ENIXNEL_MAX_FILE_SIZE"
  shows "\<exists>tbl'. fs_write_file tbl (Some nm) (Some d) len append_f = (tbl', 0) \<and>
           length tbl' = ENIXNEL_MAX_FS_ENTRIES \<and>
           fs_find_index tbl' (Some nm) = Some idx \<and> is_dir (tbl' ! idx) = 0 \<and>
           length (data (tbl' ! idx)) = ENIXNEL_MAX_FILE_SIZE \<and>
           unat (size_e (tbl' ! idx)) = offset + len \<and>
           file_content tbl' nm = Some (take offset (data (tbl ! idx)) @ take len d)"
proof -
  let ?d = "data (tbl ! idx)"
  define e' where "e' = (tbl ! idx)\<lparr>size_e := of_nat (offset + len),
      data := (take offset ?d @ take len d @ drop (offset + len) ?d)[offset + len := NUL]\<rparr>"
  from fs_find_index_Some [OF assms(2)] have inb: "idx < ENIXNEL_MAX_FS_ENTRIES" by blast
  with assms(1) have inl: "idx < length tbl" by simp
  have n: "len = min len (ENIXNEL_MAX_FILE_SIZE - offset)" using assms(7) by simp
  have "fs_write_at tbl idx d len append_f =
    (tbl[idx := (tbl ! idx)\<lparr>size_e := of_nat (offset + len),
        data := (take offset ?d @ take len d @ drop (offset + len) ?d)
                  [(if offset + len < ENIXNEL_MAX_FILE_SIZE then offset + len
                    else ENIXNEL_MAX_FILE_SIZE - 1) := NUL]\<rparr>], 0)"
    using assms(4,5,6,7) n by (intro fs_write_at_stores) simp_all
  with assms(7) have w: "fs_write_file tbl (Some nm) (Some d) len append_f = (tbl[idx := e'], 0)"
    using fs_write_file_existing [OF assms(2,3)] by (simp add: e'_def)
  have "unat (of_nat (offset + len) :: 32 word) = offset + len"
    using assms(7) by (intro unat_size_small) simp
  then have sel: "used e' = used (tbl ! idx)" "name e' = name (tbl ! idx)" "is_dir e' = 0"
    "unat (size_e e') = offset + len" "length (data e') = ENIXNEL_MAX_FILE_SIZE"
    using assms(3,4,5,7) by (simp_all add: e'_def del: of_nat_add)
  have pre: "take (offset + len) (data e') = take offset ?d @ take len d"
    using assms(4,5,7) by (simp add: e'_def)
  have slot: "tbl[idx := e'] ! idx = e'" using inl by simp
  have "holds_name (tbl[idx := e']) nm j = holds_name tbl nm j" for j
    using inl sel(1,2) by (cases "j = idx") (simp_all add: holds_name_def)
  then have find: "fs_find_index (tbl[idx := e']) (Some nm) = Some idx"
    using fs_find_index_cong [of "tbl[idx := e']" nm tbl] assms(2) by simp
  have "file_content (tbl[idx := e']) nm = Some (take offset ?d @ take len d)"
    by (simp add: file_content_def fs_read_file_def find slot sel pre)
  with w find slot sel assms(1) show ?thesis by simp
qed

text \<open>
  Below the capacity two appends concatenate after the old content, and an overwrite
  leaves exactly the bytes written.
\<close>

lemma append_twice_below_capacity:
  assumes "length tbl = ENIXNEL_MAX_FS_ENTRIES"
    and "fs_find_index tbl (Some nm) = Some idx" "is_dir (tbl ! idx) = 0"
    and "length (data (tbl ! idx)) = ENIXNEL_MAX_FILE_SIZE"
    and "unat (size_e (tbl ! idx)) + length s1 + length s2 < ENIXNEL_MAX_FILE_SIZE"
    and "file_content tbl nm = Some c0"
  shows "file_content
           (fst (fs_write_file (fst (fs_write_file tbl (Some nm) (Some s1) (length s1) 1))
                   (Some nm) (Some s2) (length s2) 1)) nm
         = Some (c0 @ s1 @ s2)"
proof -
  let ?n0 = "unat (size_e (tbl ! idx))"
  from assms(2,3,6) have c0: "c0 = take ?n0 (data (tbl ! idx))"
    by (simp add: file_content_def fs_read_file_def)
  from write_existing_below_capacity [OF assms(1-4), of "length s1" s1 ?n0 1] assms(5)
  obtain t1 where t1: "fs_write_file tbl (Some nm) (Some s1) (length s1) 1 = (t1, 0)"
    "length t1 = ENIXNEL_MAX_FS_ENTRIES" "fs_find_index t1 (Some nm) = Some idx"
    "is_dir (t1 ! idx) = 0" "length (data (t1 ! idx)) = ENIXNEL_MAX_FILE_SIZE"
    "unat (size_e (t1 ! idx)) = ?n0 + length s1" "file_content t1 nm = Some (c0 @ s1)"
    by (auto simp: c0)
  from t1(3,4,7) have c1: "take (?n0 + length s1) (data (t1 ! idx)) = c0 @ s1"
    by (simp add: file_content_def fs_read_file_def t1(6))
  from write_existing_below_capacity
    [OF t1(2-5), of "length s2" s2 "?n0 + length s1" 1] assms(5) t1(6)
  obtain t2 where "fs_write_file t1 (Some nm) (Some s2) (length s2) 1 = (t2, 0)"
    "file_content t2 nm = Some (take (?n0 + length s1) (data (t1 ! idx)) @ s2)"
    by auto
  with t1(1) c1 show ?thesis by simp
qed

lemma overwrite_below_capacity:
  assumes "length tbl = ENIXNEL_MAX_FS_ENTRIES"
    and "fs_find_index tbl (Some nm) = Some idx" "is_dir (tbl ! idx) = 0"
    and "length (data (tbl ! idx)) = ENIXNEL_MAX_FILE_SIZE"
    and "length s < ENIXNEL_MAX_FILE_SIZE"
  shows "file_content (fst (fs_write_file tbl (Some nm) (Some s) (length s) 0)) nm = Some s"
  using write_existing_below_capacity [OF assms(1-4), of "length s" s 0 0] assms(5) by auto

text \<open>
  A write of fewer than 512 bytes to a name that is not present, when the name is valid
  and a slot is free: the file is created and its content is exactly the bytes written.
\<close>

lemma write_new_below_capacity:
  assumes "length tbl = ENIXNEL_MAX_FS_ENTRIES"
    and "\<forall>j < ENIXNEL_MAX_FS_ENTRIES. \<not> holds_name tbl nm j"
    and "0 < length nm" "length nm \<le> ENIXNEL_MAX_NAME_LEN"
    and "m < ENIXNEL_MAX_FS_ENTRIES" "used (tbl ! m) = 0"
    and "\<forall>i < ENIXNEL_MAX_FS_ENTRIES. length (data (tbl ! i)) = ENIXNEL_MAX_FILE_SIZE"
    and "length s < ENIXNEL_MAX_FILE_SIZE"
  shows "snd (fs_write_file tbl (Some nm) (Some s) (length s) append_f) = 0 \<and>
         file_content (fst (fs_write_file tbl (Some nm) (Some s) (length s) append_f)) nm = Some s"
proof -
  from create_succeeds [OF assms(1,3,4,2,5,6)] obtain k where
    kb: "k < ENIXNEL_MAX_FS_ENTRIES"
    and alloc: "fs_alloc_entry tbl (Some nm) 0 = (tbl[k := alloc_fill (tbl ! k) nm 0], Some k)"
    by blast
  from fs_alloc_entry_Some [OF alloc] have first: "\<forall>j < k. used (tbl ! j) \<noteq> 0" by blast
  define e2 where
    "e2 = (alloc_fill (tbl ! k) nm 0)\<lparr>size_e := 0, data := (data (alloc_fill (tbl ! k) nm 0))[0 := NUL]\<rparr>"
  define t2 where "t2 = tbl[k := e2]"
  from kb assms(1) have kl: "k < length tbl" by simp
  have absent: "fs_find_index tbl (Some nm) = None"
    using assms(2) by (simp add: fs_find_index_None_iff)
  have sel2: "used e2 = 1" "name e2 = nm" "is_dir e2 = 0" "size_e e2 = 0"
    "length (data e2) = ENIXNEL_MAX_FILE_SIZE"
    using assms(7) kb by (simp_all add: e2_def alloc_fill_def)
  have slot2: "t2 ! k = e2" using kl by (simp add: t2_def)
  have "fs_write_file tbl (Some nm) (Some s) (length s) append_f =
      fs_write_at t2 k s (length s) append_f"
    using fs_write_file_new [OF absent alloc, of s "length s" append_f] kl
    by (simp add: t2_def e2_def)
  also have "\<dots> = (t2[k := (t2 ! k)\<lparr>size_e := of_nat (0 + length s),
        data := (take 0 (data (t2 ! k)) @ take (length s) s @ drop (0 + length s) (data (t2 ! k)))
                  [(if 0 + length s < ENIXNEL_MAX_FILE_SIZE then 0 + length s
                    else ENIXNEL_MAX_FILE_SIZE - 1) := NUL]\<rparr>], 0)"
    using assms(8) by (intro fs_write_at_stores) (simp_all add: slot2 sel2)
  finally have w: "fs_write_file tbl (Some nm) (Some s) (length s) append_f =
      (tbl[k := e2\<lparr>size_e := of_nat (length s),
          data := (s @ drop (length s) (data e2))[length s := NUL]\<rparr>], 0)"
    using assms(8) kl by (simp add: t2_def)
  define e3 where "e3 = e2\<lparr>size_e := of_nat (length s),
          data := (s @ drop (length s) (data e2))[length s := NUL]\<rparr>"
  have "unat (of_nat (length s) :: 32 word) = length s"
    using assms(8) by (intro unat_size_small) simp
  then have sel3: "used e3 = 1" "name e3 = nm" "is_dir e3 = 0" "unat (size_e e3) = length s"
    "take (length s) (data e3) = s"
    by (simp_all add: e3_def sel2)
  have slot3: "tbl[k := e3] ! k = e3" using kl by simp
  have find: "fs_find_index (tbl[k := e3]) (Some nm) = Some k"
  proof (rule fs_find_index_first)
    show "k < ENIXNEL_MAX_FS_ENTRIES" by (rule kb)
    show "holds_name (tbl[k := e3]) nm k" by (simp add: holds_name_def slot3 sel3)
    fix j assume "j < k"
    with kb assms(2) show "\<not> holds_name (tbl[k := e3]) nm j" by (simp add: holds_name_def)
  qed
  have "file_content (tbl[k := e3]) nm = Some s"
    by (simp add: file_content_def fs_read_file_def find slot3 sel3)
  with w show ?thesis by (simp add: e3_def)
qed

end
